theory Spec2Isabelle
  imports Main "HOL-Library.Sublist"
begin

section \<open>Text helpers of the JavaScript runtime\<close>

text \<open>
  Strings are \<open>string\<close> values: lists of code units below 256. The helpers below are
  the built-in string methods the sources call, restricted to that range.
\<close>

definition NL :: char where
  "NL = CHR 0x0A"

text \<open>\<open>String.prototype.trim\<close> strips white space and line terminators: TAB, LF, VT, FF, CR,
  SPACE and NBSP are the ones below 256.\<close>

definition is_ws :: "char \<Rightarrow> bool" where
  "is_ws c = (of_char c \<in> {9, 10, 11, 12, 13, 32, 160 :: nat})"

definition trim :: "string \<Rightarrow> string" where
  "trim s = rev (dropWhile is_ws (rev (dropWhile is_ws s)))"

text \<open>\<open>s.startsWith(p)\<close>.\<close>

definition startsWith :: "string \<Rightarrow> string \<Rightarrow> bool" where
  "startsWith s p = (take (length p) s = p)"

text \<open>\<open>s.includes(p)\<close>: \<open>p\<close> occurs at some position of \<open>s\<close>.\<close>

fun includes_str :: "string \<Rightarrow> string \<Rightarrow> bool" where
  "includes_str [] p = (p = [])"
| "includes_str (c # cs) p = (startsWith (c # cs) p \<or> includes_str cs p)"

text \<open>\<open>s.split("\n")\<close>: always at least one piece.\<close>

fun split_lines :: "string \<Rightarrow> string list" where
  "split_lines [] = [[]]"
| "split_lines (c # cs) =
     (if c = NL then [] # split_lines cs
      else (case split_lines cs of [] \<Rightarrow> [[c]] | s # ss \<Rightarrow> (c # s) # ss))"

text \<open>\<open>s.split("\n\n")\<close>: the separator is searched from left to right, each search
  starting behind the previous match, so three line feeds in a row end a piece after the
  second and leave the third at the head of the next piece.\<close>

fun split_nn :: "string \<Rightarrow> string list" where
  "split_nn [] = [[]]"
| "split_nn [a] = [[a]]"
| "split_nn (a # b # rest) =
     (if a = NL \<and> b = NL then [] # split_nn rest
      else (case split_nn (b # rest) of [] \<Rightarrow> [[a]] | s # ss \<Rightarrow> (a # s) # ss))"

text \<open>Decimal digits, for template strings that print a number.\<close>

definition digit_char :: "nat \<Rightarrow> char" where
  "digit_char d = char_of (48 + d)"

fun string_of_nat :: "nat \<Rightarrow> string" where
  "string_of_nat n =
     (if n < 10 then [digit_char n] else string_of_nat (n div 10) @ [digit_char (n mod 10)])"

declare string_of_nat.simps [simp del]

text \<open>\<open>parseInt(s, 10)\<close>: leading white space, an optional sign, then the longest run of
  decimal digits; \<open>NaN\<close> (here \<open>None\<close>) when there is no digit. Whatever follows the digits
  is ignored. The value is exact here; the runtime rounds beyond \<open>2^53\<close>.\<close>

definition is_digit :: "char \<Rightarrow> bool" where
  "is_digit c = (48 \<le> (of_char c :: nat) \<and> (of_char c :: nat) \<le> 57)"

definition digits_value :: "string \<Rightarrow> int" where
  "digits_value ds = foldl (\<lambda>acc c. 10 * acc + (int (of_char c) - 48)) 0 ds"

definition parseInt :: "string \<Rightarrow> int option" where
  "parseInt s =
     (let t = dropWhile is_ws s;
          neg = (t \<noteq> [] \<and> hd t = CHR ''-'');
          u = (if t \<noteq> [] \<and> (hd t = CHR ''-'' \<or> hd t = CHR ''+'') then tl t else t);
          ds = takeWhile is_digit u
      in if ds = [] then None
         else Some (if neg then - digits_value ds else digits_value ds))"

section \<open>Frame parser (\<open>src/lib/api/sseClient.ts\<close>)\<close>

text \<open>\<open>SSEEvent\<close>: the fields are prefixed because \<open>id\<close> is taken.\<close>

record sse_event =
  sse_event :: "string option"
  sse_data :: string
  sse_id :: "string option"
  sse_retry :: "int option"

definition empty_event :: sse_event where
  "empty_event = \<lparr>sse_event = None, sse_data = [], sse_id = None, sse_retry = None\<rparr>"

text \<open>One iteration of the loop over the lines in \<open>parseSSEMessage\<close>.\<close>

definition parse_line :: "sse_event \<Rightarrow> string \<Rightarrow> sse_event" where
  "parse_line e line =
     (if startsWith line ''event:'' then e\<lparr>sse_event := Some (trim (drop 6 line))\<rparr>
      else if startsWith line ''data:'' then
        (let dataLine = trim (drop 5 line)
         in e\<lparr>sse_data := (if sse_data e \<noteq> [] then sse_data e @ [NL] @ dataLine else dataLine)\<rparr>)
      else if startsWith line ''id:'' then e\<lparr>sse_id := Some (trim (drop 3 line))\<rparr>
      else if startsWith line ''retry:'' then
        (case parseInt (trim (drop 6 line)) of
           None \<Rightarrow> e
         | Some r \<Rightarrow> e\<lparr>sse_retry := Some r\<rparr>)
      else e)"

definition parseSSEMessage :: "string \<Rightarrow> sse_event option" where
  "parseSSEMessage message =
     (let e = foldl parse_line empty_event (split_lines message)
      in if sse_data e \<noteq> [] then Some e else None)"

section \<open>Stream decoder\<close>

text \<open>The body of the loop \<open>for (const message of messages)\<close> up to the call of
  \<open>onMessage\<close>: the frame handed to the callback, if any.\<close>

definition frame_of :: "string \<Rightarrow> sse_event option" where
  "frame_of message = (if trim message \<noteq> [] then parseSSEMessage message else None)"

definition frames_of :: "string list \<Rightarrow> sse_event list" where
  "frames_of messages = List.map_filter frame_of messages"

text \<open>\<open>buffer += chunk; messages = buffer.split("\n\n"); buffer = messages.pop() || ""\<close>:
  the new buffer and the frames of the complete pieces, in order.\<close>

definition decode_step :: "string \<Rightarrow> string \<Rightarrow> string \<times> sse_event list" where
  "decode_step buffer chunk =
     (let messages = split_nn (buffer @ chunk)
      in (last messages, frames_of (butlast messages)))"

text \<open>The POST client decodes only when the new text is not empty (\<open>if (newData)\<close>).\<close>

definition decode_new :: "string \<Rightarrow> string \<Rightarrow> string \<times> sse_event list" where
  "decode_new buffer newData =
     (if newData \<noteq> [] then decode_step buffer newData else (buffer, []))"

text \<open>Feeding a sequence of chunks, the buffer starting as given.\<close>

fun feed_all :: "string \<Rightarrow> string list \<Rightarrow> string \<times> sse_event list" where
  "feed_all buffer [] = (buffer, [])"
| "feed_all buffer (c # cs) =
     (let r = decode_new buffer c; r' = feed_all (fst r) cs
      in (fst r', snd r @ snd r'))"

section \<open>Errors and parsed payloads\<close>

text \<open>A thrown \<open>Error\<close> object: its \<open>name\<close> and its \<open>message\<close>.\<close>

datatype js_error = JsError (err_name: string) (err_message: string)

definition new_Error :: "string \<Rightarrow> js_error" where
  "new_Error m = JsError ''Error'' m"

text \<open>What \<open>JSON.parse\<close> returns. Numbers are the integers; an object is the list of its own
  members, each key once.\<close>

datatype json =
  JNull | JBool bool | JNum int | JStr string | JArr "json list" | JObj "(string \<times> json) list"

text \<open>\<open>v.k\<close> for a value that is not \<open>null\<close>; \<open>None\<close> is \<open>undefined\<close>. Only the keys
  \<open>type\<close>, \<open>workout\<close>, \<open>id\<close> and \<open>message\<close> are read, and no primitive, array or object
  prototype has a member of one of these names.\<close>

definition get_prop :: "json \<Rightarrow> string \<Rightarrow> json option" where
  "get_prop v k = (case v of JObj kvs \<Rightarrow> map_of kvs k | _ \<Rightarrow> None)"

fun truthy :: "json \<Rightarrow> bool" where
  "truthy JNull = False"
| "truthy (JBool b) = b"
| "truthy (JNum n) = (n \<noteq> 0)"
| "truthy (JStr s) = (s \<noteq> [])"
| "truthy (JArr _) = True"
| "truthy (JObj _) = True"

text \<open>The two services of the runtime that the generation hook calls on payloads:
  \<open>JSON.parse\<close> (\<open>None\<close> when it throws) and the conversion of a value to a string that
  \<open>new Error(value)\<close> performs.\<close>

record runtime =
  json_parse :: "string \<Rightarrow> json option"
  to_string :: "json \<Rightarrow> string"

section \<open>Transport: \<open>createSSEClientWithPost\<close>\<close>

text \<open>The callbacks of \<open>SSEClientOptions\<close>, over the state \<open>'u\<close> they close over. A callback
  returns the state it leaves and the error it throws, if it throws.\<close>

record 'u sse_options =
  onMessage :: "sse_event \<Rightarrow> 'u \<Rightarrow> 'u \<times> js_error option"
  onError :: "js_error \<Rightarrow> 'u \<Rightarrow> 'u \<times> js_error option"
  onOpen :: "'u \<Rightarrow> 'u"
  onClose :: "'u \<Rightarrow> 'u"

datatype call = OnOpen | OnMessage sse_event | OnError js_error | OnClose

text \<open>How the promise returned by the client has settled.\<close>

datatype settled = Returned | Threw js_error

definition UNSENT :: nat where "UNSENT = 0"
definition OPENED :: nat where "OPENED = 1"
definition HEADERS_RECEIVED :: nat where "HEADERS_RECEIVED = 2"
definition LOADING :: nat where "LOADING = 3"
definition DONE :: nat where "DONE = 4"

text \<open>
  The variables of one call: \<open>buffer\<close> and \<open>lastIndex\<close> of the closure, the ready state of
  the request object, whether the abort signal has fired, how the call has settled
  (\<open>None\<close> while it is pending), the callbacks invoked so far, and the callbacks' state.
\<close>

record 'u sse_state =
  buffer :: string
  lastIndex :: nat
  xhr_readyState :: nat
  signal_aborted :: bool
  settled :: "settled option"
  calls :: "call list"
  user :: 'u

definition sse_init :: "'u \<Rightarrow> 'u sse_state" where
  "sse_init u = \<lparr>buffer = [], lastIndex = 0, xhr_readyState = OPENED, signal_aborted = False,
     settled = None, calls = [], user = u\<rparr>"

definition call_onOpen :: "'u sse_options \<Rightarrow> 'u sse_state \<Rightarrow> 'u sse_state" where
  "call_onOpen opts st = st\<lparr>calls := calls st @ [OnOpen], user := onOpen opts (user st)\<rparr>"

definition call_onClose :: "'u sse_options \<Rightarrow> 'u sse_state \<Rightarrow> 'u sse_state" where
  "call_onClose opts st = st\<lparr>calls := calls st @ [OnClose], user := onClose opts (user st)\<rparr>"

text \<open>\<open>resolve()\<close>: the awaited promise is fulfilled, the function leaves the \<open>try\<close> block
  and returns. A promise settles once.\<close>

definition sse_resolve :: "'u sse_state \<Rightarrow> 'u sse_state" where
  "sse_resolve st = (if settled st = None then st\<lparr>settled := Some Returned\<rparr> else st)"

text \<open>The \<open>catch\<close> block, for an error that is an \<open>Error\<close> object.\<close>

definition sse_catch :: "'u sse_options \<Rightarrow> js_error \<Rightarrow> 'u sse_state \<Rightarrow> 'u sse_state" where
  "sse_catch opts e st =
     (if err_name e = ''AbortError'' \<or> includes_str (err_message e) ''abort''
      then (call_onClose opts st)\<lparr>settled := Some Returned\<rparr>
      else (let r = onError opts e (user st)
            in st\<lparr>calls := calls st @ [OnError e], user := fst r,
                  settled := Some (case snd r of None \<Rightarrow> Returned | Some e' \<Rightarrow> Threw e')\<rparr>))"

text \<open>\<open>reject(e)\<close>: the awaited promise is rejected and the \<open>catch\<close> block runs as soon
  as the handler that rejected has returned. Here it runs at once, so its callback is
  recorded before those of the next event; for two events that the request dispatches in
  one go the callbacks of the second come first in the code. Which callbacks run and how
  the call settles are the same.\<close>

definition sse_reject :: "'u sse_options \<Rightarrow> js_error \<Rightarrow> 'u sse_state \<Rightarrow> 'u sse_state" where
  "sse_reject opts e st = (if settled st = None then sse_catch opts e st else st)"

text \<open>The loop over the complete messages: \<open>onMessage\<close> for each frame, in order. An error
  thrown by the callback ends the loop and leaves the event handler.\<close>

fun emit_all :: "'u sse_options \<Rightarrow> sse_event list \<Rightarrow> 'u sse_state \<Rightarrow> 'u sse_state \<times> js_error option" where
  "emit_all opts [] st = (st, None)"
| "emit_all opts (ev # evs) st =
     (let r = onMessage opts ev (user st);
          st' = st\<lparr>calls := calls st @ [OnMessage ev], user := fst r\<rparr>
      in case snd r of
           Some e \<Rightarrow> (st', Some e)
         | None \<Rightarrow> emit_all opts evs st')"

text \<open>
  \<open>xhr.onreadystatechange\<close>, given the ready state, the status and the response text of
  the request at the time of the event. It runs as an event handler of the request, outside
  the \<open>try\<close> block of the client: an error thrown by \<open>onMessage\<close> ends the handler where it
  is and reaches neither \<open>reject\<close> nor the \<open>catch\<close> block.
\<close>

definition onreadystatechange ::
  "'u sse_options \<Rightarrow> nat \<Rightarrow> nat \<Rightarrow> string \<Rightarrow> 'u sse_state \<Rightarrow> 'u sse_state" where
  "onreadystatechange opts readyState status responseText st =
     (if readyState = HEADERS_RECEIVED \<and> status \<noteq> 200
      then sse_reject opts (new_Error (''HTTP error! status: '' @ string_of_nat status)) st
      else
        (let st1 = (if readyState = HEADERS_RECEIVED then call_onOpen opts st else st);
             r = (if readyState = LOADING \<or> readyState = DONE
                  then (let newData = drop (lastIndex st1) responseText;
                            d = decode_new (buffer st1) newData
                        in emit_all opts (snd d)
                             (st1\<lparr>lastIndex := length responseText, buffer := fst d\<rparr>))
                  else (st1, None))
         in case snd r of
              Some e \<Rightarrow> fst r
            | None \<Rightarrow>
                (if readyState = DONE then sse_resolve (call_onClose opts (fst r)) else fst r)))"

datatype xhr_event = ReadyStateChange nat nat string | XhrError | XhrAbort

text \<open>The three handlers the client installs on the request.\<close>

definition sse_handle :: "'u sse_options \<Rightarrow> xhr_event \<Rightarrow> 'u sse_state \<Rightarrow> 'u sse_state" where
  "sse_handle opts ev st =
     (case ev of
        ReadyStateChange readyState status responseText \<Rightarrow>
          onreadystatechange opts readyState status responseText st
      | XhrError \<Rightarrow> sse_reject opts (new_Error ''Network error'') st
      | XhrAbort \<Rightarrow> sse_resolve (call_onClose opts st))"

text \<open>The request object dispatching one event: its ready state moves, then the handler
  runs. An \<open>error\<close> or \<open>abort\<close> event belongs to a request that is done.\<close>

definition sse_deliver :: "'u sse_options \<Rightarrow> xhr_event \<Rightarrow> 'u sse_state \<Rightarrow> 'u sse_state" where
  "sse_deliver opts ev st =
     sse_handle opts ev
       (st\<lparr>xhr_readyState := (case ev of ReadyStateChange readyState _ _ \<Rightarrow> readyState | _ \<Rightarrow> DONE)\<rparr>)"

text \<open>
  \<open>xhr.abort()\<close> as the XMLHttpRequest standard and React Native's implementation define
  it: a request that has been sent and is not done becomes done with an empty response and
  status 0, fires \<open>readystatechange\<close> and then \<open>abort\<close>; on a request that is done nothing
  is fired.
\<close>

definition xhr_abort_events :: "nat \<Rightarrow> xhr_event list" where
  "xhr_abort_events readyState =
     (if readyState = OPENED \<or> readyState = HEADERS_RECEIVED \<or> readyState = LOADING
      then [ReadyStateChange DONE 0 [], XhrAbort] else [])"

text \<open>The listener registered on the abort signal calls \<open>xhr.abort()\<close>; the events are
  dispatched before \<open>abort()\<close> returns. A signal fires once.\<close>

definition signal_abort :: "'u sse_options \<Rightarrow> 'u sse_state \<Rightarrow> 'u sse_state" where
  "signal_abort opts st =
     (if signal_aborted st then st
      else foldl (\<lambda>s ev. sse_deliver opts ev s) (st\<lparr>signal_aborted := True\<rparr>)
             (xhr_abort_events (xhr_readyState st)))"

text \<open>All events of a request, one after the other, whether the call has settled or not:
  the handlers stay installed.\<close>

definition sse_run :: "'u sse_options \<Rightarrow> xhr_event list \<Rightarrow> 'u sse_state \<Rightarrow> 'u sse_state" where
  "sse_run opts evs st = foldl (\<lambda>s ev. sse_deliver opts ev s) st evs"

section \<open>Transport: \<open>createSSEClient\<close> (GET, reading the body)\<close>

text \<open>What \<open>fetch\<close> and the reader give: the request fails, or a response arrives with a
  status, with or without a body, whose reads deliver decoded text or fail; the end of the
  list is \<open>done\<close>.\<close>

datatype read_step = ReadChunk string | ReadFails js_error

datatype fetch_outcome = FetchFails js_error | FetchResponse nat bool "read_step list"

text \<open>The \<open>while (true)\<close> loop over the reads; the result carries the error that leaves
  the loop, thrown by a read or by \<open>onMessage\<close>.\<close>

fun read_loop :: "'u sse_options \<Rightarrow> read_step list \<Rightarrow> 'u sse_state \<Rightarrow> 'u sse_state \<times> js_error option" where
  "read_loop opts [] st = (st, None)"
| "read_loop opts (ReadFails e # rest) st = (st, Some e)"
| "read_loop opts (ReadChunk c # rest) st =
     (let d = decode_step (buffer st) c;
          r = emit_all opts (snd d) (st\<lparr>buffer := fst d\<rparr>)
      in case snd r of
           Some e \<Rightarrow> (fst r, Some e)
         | None \<Rightarrow> read_loop opts rest (fst r))"

definition get_catch :: "'u sse_options \<Rightarrow> js_error \<Rightarrow> 'u sse_state \<Rightarrow> 'u sse_state" where
  "get_catch opts e st =
     (if err_name e = ''AbortError''
      then (call_onClose opts st)\<lparr>settled := Some Returned\<rparr>
      else (let r = onError opts e (user st)
            in st\<lparr>calls := calls st @ [OnError e], user := fst r,
                  settled := Some (case snd r of None \<Rightarrow> Returned | Some e' \<Rightarrow> Threw e')\<rparr>))"

definition createSSEClient :: "'u sse_options \<Rightarrow> fetch_outcome \<Rightarrow> 'u \<Rightarrow> 'u sse_state" where
  "createSSEClient opts outcome u =
     (case outcome of
        FetchFails e \<Rightarrow> get_catch opts e (sse_init u)
      | FetchResponse status has_body steps \<Rightarrow>
          (if \<not> (200 \<le> status \<and> status \<le> 299)
           then get_catch opts (new_Error (''HTTP error! status: '' @ string_of_nat status)) (sse_init u)
           else if \<not> has_body
           then get_catch opts (new_Error ''Response body is null'') (sse_init u)
           else (let r = read_loop opts steps (call_onOpen opts (sse_init u));
                     st = call_onClose opts (fst r)
                 in case snd r of
                      None \<Rightarrow> st\<lparr>settled := Some Returned\<rparr>
                    | Some e \<Rightarrow> get_catch opts e st)))"

section \<open>Day names (\<open>src/lib/constants/programConfig.ts\<close>)\<close>

text \<open>The own members of \<open>dayNameToNumber\<close>.\<close>

definition dayNameToNumber :: "(string \<times> int) list" where
  "dayNameToNumber =
     [(''Sunday'', 0), (''Monday'', 1), (''Tuesday'', 2), (''Wednesday'', 3),
      (''Thursday'', 4), (''Friday'', 5), (''Saturday'', 6)]"

text \<open>\<open>dayNameToNumber\<close> is an object literal, so \<open>dayNameToNumber[k]\<close> also finds the
  members it inherits from \<open>Object.prototype\<close>; none of them is a number.\<close>

definition object_prototype_members :: "string list" where
  "object_prototype_members =
     [''constructor'', ''toString'', ''toLocaleString'', ''valueOf'', ''hasOwnProperty'',
      ''isPrototypeOf'', ''propertyIsEnumerable'', ''__proto__'', ''__defineGetter__'',
      ''__defineSetter__'', ''__lookupGetter__'', ''__lookupSetter__'']"

datatype day_value = DayCode int | Inherited string

text \<open>\<open>dayNameToNumber[k]\<close>; \<open>None\<close> is \<open>undefined\<close>.\<close>

definition lookup_day :: "string \<Rightarrow> day_value option" where
  "lookup_day k =
     (case map_of dayNameToNumber k of
        Some n \<Rightarrow> Some (DayCode n)
      | None \<Rightarrow> (if k \<in> set object_prototype_members then Some (Inherited k) else None))"

text \<open>\<open>toUpperCase\<close> and \<open>toLowerCase\<close> on the letters A to Z. Code units from 128 on are left
  as they are; the runtime turns some of them into other text outside A to Z and a to z,
  none of which occurs in a key of the table.\<close>

definition to_upper :: "char \<Rightarrow> char" where
  "to_upper c = (if 97 \<le> (of_char c :: nat) \<and> (of_char c :: nat) \<le> 122
                 then char_of ((of_char c :: nat) - 32) else c)"

definition to_lower :: "char \<Rightarrow> char" where
  "to_lower c = (if 65 \<le> (of_char c :: nat) \<and> (of_char c :: nat) \<le> 90
                 then char_of ((of_char c :: nat) + 32) else c)"

text \<open>\<open>day.charAt(0).toUpperCase() + day.slice(1).toLowerCase()\<close>.\<close>

definition capitalize :: "string \<Rightarrow> string" where
  "capitalize day = map to_upper (take 1 day) @ map to_lower (drop 1 day)"

text \<open>An element of \<open>formData.daysOfWeek\<close> at run time: a string, a number, or a value that
  is neither.\<close>

datatype day_input = DayString string | DayNumber int | DayOther

text \<open>The function mapped over \<open>formData.daysOfWeek\<close>; \<open>None\<close> is \<open>null\<close>.\<close>

definition day_to_number :: "day_input \<Rightarrow> day_value option" where
  "day_to_number day =
     (case day of
        DayNumber n \<Rightarrow> Some (DayCode n)
      | DayOther \<Rightarrow> None
      | DayString s \<Rightarrow>
          (if s = [] then None
           else if lookup_day s \<noteq> None then lookup_day s
           else if lookup_day (capitalize s) \<noteq> None then lookup_day (capitalize s)
           else None))"

text \<open>\<open>daysOfWeekNumbers\<close>: the mapped list without the \<open>null\<close>s, or Monday, Wednesday and
  Friday when nothing is left.\<close>

definition daysOfWeekNumbers :: "day_input list \<Rightarrow> day_value list" where
  "daysOfWeekNumbers days =
     (let nums = List.map_filter day_to_number days
      in if length nums = 0 then nums @ [DayCode 1, DayCode 3, DayCode 5] else nums)"

section \<open>Generation hook (\<open>useProgramGeneration\<close> in \<open>src/hooks/useWorkout.ts\<close>)\<close>

definition MAX_RETRIES :: nat where
  "MAX_RETRIES = 2"

definition RETRY_DELAY :: nat where
  "RETRY_DELAY = 3000"

datatype generation_stage =
  Idle | Preparing | Generating | Streaming | Complete | ErrorStage | Retrying

text \<open>The state of the hook: the six \<open>useState\<close> cells (the elapsed seconds apart) and the
  two refs, as whether the interval timer runs and whether \<open>abortControllerRef.current\<close>
  is set.\<close>

record hook_state =
  isGenerating :: bool
  stage :: generation_stage
  progress_current :: nat
  progress_total :: int
  streamingWorkouts :: "json list"
  error :: "string option"
  timer_running :: bool
  abort_ref :: bool

text \<open>The fields of \<open>ProgramFormData\<close> that decide what the hook does; the others are copied
  into the request body as they are.\<close>

record program_form =
  numberOfWeeks :: int
  daysPerWeek :: int
  daysOfWeek :: "day_input list"

record generation_result =
  success :: bool
  workoutsCreated :: nat
  result_error :: "string option"

definition getTimeout :: "int \<Rightarrow> nat" where
  "getTimeout weeks = (if weeks < 5 then 300000 else if weeks < 8 then 450000 else 1800000)"

text \<open>The part of \<open>requestBody\<close> computed by the hook.\<close>

record request_body =
  duration_weeks :: int
  days_per_week :: int
  days_of_week :: "day_value list"
  forceRegenerate :: bool

definition requestBody :: "program_form \<Rightarrow> bool \<Rightarrow> request_body" where
  "requestBody formData isRegeneration =
     \<lparr>duration_weeks = numberOfWeeks formData, days_per_week = daysPerWeek formData,
      days_of_week = daysOfWeekNumbers (daysOfWeek formData),
      forceRegenerate = isRegeneration\<rparr>"

text \<open>The variables of one pass of the retry loop that the callbacks close over: the hook
  state, the keys in \<open>processedWorkouts\<close> in the order they were added, and whether the
  timeout set for this pass is still to fire.\<close>

record attempt_state =
  hook :: hook_state
  processedWorkouts :: "json option list"
  timeout_pending :: bool

text \<open>\<open>Set.prototype.has\<close>: primitive keys are compared by value, and an array or object
  that \<open>JSON.parse\<close> has just built is identical to no key added earlier.\<close>

definition set_has :: "json option list \<Rightarrow> json option \<Rightarrow> bool" where
  "set_has keys k =
     (case k of
        Some (JArr _) \<Rightarrow> False
      | Some (JObj _) \<Rightarrow> False
      | _ \<Rightarrow> k \<in> set keys)"

text \<open>The message of \<open>new Error(data.message || "Generation failed")\<close>.\<close>

definition error_payload_message :: "runtime \<Rightarrow> json option \<Rightarrow> string" where
  "error_payload_message rt m =
     (case m of
        None \<Rightarrow> ''Generation failed''
      | Some v \<Rightarrow>
          (if truthy v then (case v of JStr t \<Rightarrow> t | _ \<Rightarrow> to_string rt v)
           else ''Generation failed''))"

text \<open>The \<open>onMessage\<close> callback. Reading \<open>data.type\<close> of \<open>null\<close> throws a \<open>TypeError\<close>, whose
  message is the engine's and is left empty here.\<close>

definition gen_onMessage :: "runtime \<Rightarrow> sse_event \<Rightarrow> attempt_state \<Rightarrow> attempt_state \<times> js_error option" where
  "gen_onMessage rt event a =
     (case json_parse rt (sse_data event) of
        None \<Rightarrow> (a, None)
      | Some JNull \<Rightarrow> (a, Some (JsError ''TypeError'' []))
      | Some d \<Rightarrow>
          (if get_prop d ''type'' = Some (JStr ''status'') then (a, None)
           else if get_prop d ''type'' = Some (JStr ''workout_chunk'') then
             (case get_prop d ''workout'' of
                None \<Rightarrow> (a, None)
              | Some workout \<Rightarrow>
                  (if truthy workout \<and> \<not> set_has (processedWorkouts a) (get_prop workout ''id'')
                   then (let keys = processedWorkouts a @ [get_prop workout ''id'']
                         in (a\<lparr>processedWorkouts := keys,
                               hook := (hook a)\<lparr>streamingWorkouts := streamingWorkouts (hook a) @ [workout],
                                                progress_current := length keys\<rparr>\<rparr>, None))
                   else (a, None)))
           else if get_prop d ''type'' = Some (JStr ''program_metadata'') then (a, None)
           else if get_prop d ''type'' = Some (JStr ''warning'') then (a, None)
           else if get_prop d ''type'' = Some (JStr ''error'')
           then (a, Some (new_Error (error_payload_message rt (get_prop d ''message''))))
           else (a, None)))"

definition gen_onOpen :: "attempt_state \<Rightarrow> attempt_state" where
  "gen_onOpen a = a\<lparr>hook := (hook a)\<lparr>stage := Streaming\<rparr>\<rparr>"

text \<open>\<open>onError\<close>: \<open>clearTimeout(timeoutId); throw err\<close>.\<close>

definition gen_onError :: "js_error \<Rightarrow> attempt_state \<Rightarrow> attempt_state \<times> js_error option" where
  "gen_onError err a = (a\<lparr>timeout_pending := False\<rparr>, Some err)"

definition gen_onClose :: "attempt_state \<Rightarrow> attempt_state" where
  "gen_onClose a = a\<lparr>timeout_pending := False\<rparr>"

definition gen_options :: "runtime \<Rightarrow> attempt_state sse_options" where
  "gen_options rt =
     \<lparr>onMessage = gen_onMessage rt, onError = gen_onError, onOpen = gen_onOpen,
      onClose = gen_onClose\<rparr>"

text \<open>
  What can happen while the hook awaits the client: an event of the request, the timeout
  set by \<open>setTimeout(() => controller.abort(), timeout)\<close> firing, or the caller invoking
  \<open>cancel\<close>.
\<close>

datatype attempt_event = Xhr xhr_event | TimeoutFires | CancelCalled

text \<open>\<open>cancel\<close>: the controller in the ref is aborted, which runs the handlers of the
  request before \<open>abort()\<close> returns; then the ref and the timer are cleared and the state
  is set.\<close>

definition cancel :: "attempt_state sse_options \<Rightarrow> attempt_state sse_state \<Rightarrow> attempt_state sse_state" where
  "cancel opts st =
     (let st1 = (if abort_ref (hook (user st)) then signal_abort opts st else st);
          a = user st1
      in st1\<lparr>user := a\<lparr>hook := (hook a)\<lparr>abort_ref := False, timer_running := False,
                                          isGenerating := False, stage := Idle,
                                          error := Some ''Generation cancelled''\<rparr>\<rparr>\<rparr>)"

definition attempt_step ::
  "attempt_state sse_options \<Rightarrow> attempt_event \<Rightarrow> attempt_state sse_state \<Rightarrow> attempt_state sse_state" where
  "attempt_step opts ev st =
     (case ev of
        Xhr e \<Rightarrow> sse_deliver opts e st
      | TimeoutFires \<Rightarrow>
          (if timeout_pending (user st)
           then signal_abort opts (st\<lparr>user := (user st)\<lparr>timeout_pending := False\<rparr>\<rparr>)
           else st)
      | CancelCalled \<Rightarrow> cancel opts st)"

text \<open>The events in turn, until the call of the client has settled: the hook then goes
  on behind its \<open>await\<close>. The handlers of the request stay installed, and events that
  come later would still run the callbacks of this pass; they are left out here, and no
  result, end of a pass or delay depends on them.\<close>

fun run_events ::
  "attempt_state sse_options \<Rightarrow> attempt_event list \<Rightarrow> attempt_state sse_state \<Rightarrow> attempt_state sse_state" where
  "run_events opts [] st = st"
| "run_events opts (ev # evs) st =
     (if settled st \<noteq> None then st else run_events opts evs (attempt_step opts ev st))"

text \<open>What the surroundings give to one pass of the loop: the access token of the session,
  if there is one, and the events while the client is awaited.\<close>

record attempt_env =
  access_token :: "string option"
  events :: "attempt_event list"

text \<open>How the \<open>try\<close> block of one pass ends: it returns the success result, an error reaches
  the \<open>catch\<close>, or the awaited call never settles.\<close>

datatype attempt_outcome =
  Succeeded hook_state nat | Caught hook_state js_error | Hangs hook_state

text \<open>The state in which the client is called: the stage is \<open>generating\<close>, the expected
  total is set, a new controller is in the ref, the timeout is set and
  \<open>processedWorkouts\<close> is empty.\<close>

definition attempt_start :: "program_form \<Rightarrow> hook_state \<Rightarrow> attempt_state sse_state" where
  "attempt_start formData h1 =
     sse_init
       \<lparr>hook = h1\<lparr>stage := Generating, progress_current := 0,
                   progress_total := numberOfWeeks formData * daysPerWeek formData,
                   abort_ref := True\<rparr>,
        processedWorkouts = [], timeout_pending = True\<rparr>"

text \<open>The state of the hook behind \<open>if (retryCount > 0) { ... }\<close>.\<close>

definition before_attempt :: "nat \<Rightarrow> hook_state \<Rightarrow> hook_state" where
  "before_attempt retryCount h =
     (if retryCount > 0 then h\<lparr>stage := Retrying, streamingWorkouts := []\<rparr> else h)"

definition try_attempt ::
  "runtime \<Rightarrow> program_form \<Rightarrow> attempt_env \<Rightarrow> nat \<Rightarrow> hook_state \<Rightarrow> attempt_outcome" where
  "try_attempt rt formData env retryCount h =
     (case access_token env of
        None \<Rightarrow> Caught (before_attempt retryCount h) (new_Error ''No authentication token'')
      | Some token \<Rightarrow>
          (let st = run_events (gen_options rt) (events env)
                      (attempt_start formData (before_attempt retryCount h))
           in case settled st of
                None \<Rightarrow> Hangs (hook (user st))
              | Some (Threw e) \<Rightarrow> Caught (hook (user st)) e
              | Some Returned \<Rightarrow>
                  Succeeded ((hook (user st))\<lparr>stage := Complete, timer_running := False,
                                              isGenerating := False\<rparr>)
                    (length (processedWorkouts (user st)))))"

text \<open>The test in the \<open>catch\<close> of the retry loop.\<close>

definition retryable :: "js_error \<Rightarrow> bool" where
  "retryable e =
     (includes_str (err_message e) ''503'' \<or> includes_str (err_message e) ''504'' \<or>
      includes_str (err_message e) ''Network'')"

text \<open>How one pass of the loop ended, for the record of a run.\<close>

datatype attempt_end = Ended_success nat | Ended_error js_error | Never_ended

text \<open>A run of \<open>generateProgram\<close>: the promise it returns, resolved or pending for ever,
  the state of the hook when the promise resolves (or when the events of the last pass
  are used up), how each pass of the loop that was started has ended, and the delays
  waited, in order.\<close>

datatype 'a promise = Pending | Resolved 'a

record run =
  result :: "generation_result promise"
  final :: hook_state
  ends :: "attempt_end list"
  delays :: "nat list"

text \<open>The number of passes of the loop that were started.\<close>

definition attempts :: "run \<Rightarrow> nat" where
  "attempts r = length (ends r)"

text \<open>The code behind the loop.\<close>

definition failed :: "js_error option \<Rightarrow> hook_state \<Rightarrow> attempt_end list \<Rightarrow> nat list \<Rightarrow> run" where
  "failed lastError h es ds =
     \<lparr>result = Resolved \<lparr>success = False, workoutsCreated = 0,
                          result_error = map_option err_message lastError\<rparr>,
      final = h\<lparr>stage := ErrorStage,
                error := Some (case lastError of
                                 None \<Rightarrow> ''Generation failed''
                               | Some e \<Rightarrow> if err_message e = [] then ''Generation failed''
                                           else err_message e),
                timer_running := False, isGenerating := False\<rparr>,
      ends = es, delays = ds\<rparr>"

text \<open>The \<open>while (retryCount <= MAX_RETRIES)\<close> loop; pass number \<open>retryCount\<close> meets the
  surroundings \<open>envs retryCount\<close>.\<close>

function retry_loop ::
  "runtime \<Rightarrow> program_form \<Rightarrow> (nat \<Rightarrow> attempt_env) \<Rightarrow> nat \<Rightarrow> js_error option \<Rightarrow> hook_state \<Rightarrow>
   attempt_end list \<Rightarrow> nat list \<Rightarrow> run" where
  "retry_loop rt formData envs retryCount lastError h es ds =
     (if retryCount \<le> MAX_RETRIES then
        (let ds' = (if retryCount > 0 then ds @ [RETRY_DELAY] else ds)
         in case try_attempt rt formData (envs retryCount) retryCount h of
              Succeeded h' n \<Rightarrow>
                \<lparr>result = Resolved \<lparr>success = True, workoutsCreated = n, result_error = None\<rparr>,
                 final = h', ends = es @ [Ended_success n], delays = ds'\<rparr>
            | Hangs h' \<Rightarrow>
                \<lparr>result = Pending, final = h', ends = es @ [Never_ended], delays = ds'\<rparr>
            | Caught h' e \<Rightarrow>
                (if retryable e \<and> Suc retryCount \<le> MAX_RETRIES
                 then retry_loop rt formData envs (Suc retryCount) (Some e) h'
                        (es @ [Ended_error e]) ds'
                 else failed (Some e) h' (es @ [Ended_error e]) ds'))
      else failed lastError h es ds)"
  by pat_completeness auto
termination
  by (relation "measure (\<lambda>(rt, formData, envs, retryCount, lastError, h, es, ds).
        Suc MAX_RETRIES - retryCount)") auto

declare retry_loop.simps [simp del]

definition generateProgram ::
  "runtime \<Rightarrow> program_form \<Rightarrow> bool \<Rightarrow> (nat \<Rightarrow> attempt_env) \<Rightarrow> hook_state \<Rightarrow> run" where
  "generateProgram rt formData isRegeneration envs h =
     retry_loop rt formData envs 0 None
       (h\<lparr>isGenerating := True, error := None, stage := Preparing, progress_current := 0,
          progress_total := 0, streamingWorkouts := [], timer_running := True\<rparr>) [] []"

definition initial_hook :: hook_state where
  "initial_hook =
     \<lparr>isGenerating = False, stage = Idle, progress_current = 0, progress_total = 0,
      streamingWorkouts = [], error = None, timer_running = False, abort_ref = False\<rparr>"

section \<open>Sample inputs\<close>

text \<open>Payload texts as the generation endpoint sends them, and a \<open>JSON.parse\<close> that knows
  these texts.\<close>

definition quoted :: "string \<Rightarrow> string" where
  "quoted s = [CHR 0x22] @ s @ [CHR 0x22]"

definition workout_text :: "string \<Rightarrow> string" where
  "workout_text i =
     ''{'' @ quoted ''type'' @ '':'' @ quoted ''workout_chunk'' @ '','' @ quoted ''workout'' @
     '':{'' @ quoted ''id'' @ '':'' @ quoted i @ ''}}''"

definition workout_json :: "string \<Rightarrow> json" where
  "workout_json i =
     JObj [(''type'', JStr ''workout_chunk''), (''workout'', JObj [(''id'', JStr i)])]"

definition error_text :: string where
  "error_text =
     ''{'' @ quoted ''type'' @ '':'' @ quoted ''error'' @ '','' @ quoted ''message'' @ '':'' @
     quoted ''boom'' @ ''}''"

definition error_json :: json where
  "error_json = JObj [(''type'', JStr ''error''), (''message'', JStr ''boom'')]"

definition sample_parse :: "string \<Rightarrow> json option" where
  "sample_parse s =
     (if s = workout_text ''w1'' then Some (workout_json ''w1'')
      else if s = workout_text ''w2'' then Some (workout_json ''w2'')
      else if s = error_text then Some error_json
      else None)"

definition sample_to_string :: "json \<Rightarrow> string" where
  "sample_to_string v = (case v of JStr s \<Rightarrow> s | _ \<Rightarrow> [])"

definition sample_runtime :: runtime where
  "sample_runtime = \<lparr>json_parse = sample_parse, to_string = sample_to_string\<rparr>"

text \<open>One frame on the wire: a \<open>data:\<close> line and the blank line.\<close>

definition frame_text :: "string \<Rightarrow> string" where
  "frame_text payload = ''data: '' @ payload @ [NL, NL]"

definition sample_form :: program_form where
  "sample_form = \<lparr>numberOfWeeks = 4, daysPerWeek = 3, daysOfWeek = [DayString ''Monday'']\<rparr>"

text \<open>Callbacks that do nothing, for the transport on its own.\<close>

definition plain_options :: "unit sse_options" where
  "plain_options =
     \<lparr>onMessage = (\<lambda>ev u. (u, None)), onError = (\<lambda>e u. (u, None)), onOpen = (\<lambda>u. u),
      onClose = (\<lambda>u. u)\<rparr>"

text \<open>A session with a token and the given events.\<close>

definition with_events :: "attempt_event list \<Rightarrow> attempt_env" where
  "with_events evs = \<lparr>access_token = Some ''token'', events = evs\<rparr>"

text \<open>The deadline fires after the headers of a 200 response, in every pass.\<close>

definition timeout_envs :: "nat \<Rightarrow> attempt_env" where
  "timeout_envs k =
     with_events [Xhr (ReadyStateChange HEADERS_RECEIVED 200 []), TimeoutFires]"

text \<open>\<open>cancel\<close> is invoked after the first workout has streamed in.\<close>

definition cancel_envs :: "nat \<Rightarrow> attempt_env" where
  "cancel_envs k =
     with_events
       [Xhr (ReadyStateChange HEADERS_RECEIVED 200 []),
        Xhr (ReadyStateChange LOADING 200 (frame_text (workout_text ''w1''))),
        CancelCalled]"

text \<open>The server streams one workout, then an \<open>error\<close> payload, and closes the response.\<close>

definition error_stream :: string where
  "error_stream = frame_text (workout_text ''w1'') @ frame_text error_text"

definition error_payload_envs :: "nat \<Rightarrow> attempt_env" where
  "error_payload_envs k =
     with_events
       [Xhr (ReadyStateChange HEADERS_RECEIVED 200 []),
        Xhr (ReadyStateChange LOADING 200 error_stream),
        Xhr (ReadyStateChange DONE 200 error_stream)]"

text \<open>Every pass meets a 503 response.\<close>

definition unavailable_envs :: "nat \<Rightarrow> attempt_env" where
  "unavailable_envs k =
     with_events [Xhr (ReadyStateChange HEADERS_RECEIVED 503 [])]"

text \<open>The first pass meets a 503 response, the second a 200 response with two workouts.\<close>

definition recovering_envs :: "nat \<Rightarrow> attempt_env" where
  "recovering_envs k =
     (if k = 0 then with_events [Xhr (ReadyStateChange HEADERS_RECEIVED 503 [])]
      else with_events
             [Xhr (ReadyStateChange HEADERS_RECEIVED 200 []),
              Xhr (ReadyStateChange LOADING 200 (frame_text (workout_text ''w1''))),
              Xhr (ReadyStateChange DONE 200
                     (frame_text (workout_text ''w1'') @ frame_text (workout_text ''w2'')))])"

text \<open>In every pass a workout streams in and then the request reports \<open>error\<close>.\<close>

definition dropped_envs :: "nat \<Rightarrow> attempt_env" where
  "dropped_envs k =
     with_events
       [Xhr (ReadyStateChange HEADERS_RECEIVED 200 []),
        Xhr (ReadyStateChange LOADING 200 (frame_text (workout_text ''w1''))),
        Xhr XhrError]"

section \<open>Specification vocabulary\<close>

text \<open>\<open>workout.id\<close>.\<close>

definition wid :: "json \<Rightarrow> json option" where
  "wid w = get_prop w ''id''"

text \<open>The frame carries a \<open>workout_chunk\<close> payload whose \<open>workout\<close> is \<open>w\<close>, an object with a
  string \<open>id\<close>, as \<open>StreamingWorkout\<close> declares it.\<close>

definition is_chunk :: "runtime \<Rightarrow> sse_event \<Rightarrow> json \<Rightarrow> bool" where
  "is_chunk rt ev w =
     (case json_parse rt (sse_data ev) of
        None \<Rightarrow> False
      | Some d \<Rightarrow>
          get_prop d ''type'' = Some (JStr ''workout_chunk'') \<and> get_prop d ''workout'' = Some w \<and>
          (case w of JObj _ \<Rightarrow> (case wid w of Some (JStr _) \<Rightarrow> True | _ \<Rightarrow> False) | _ \<Rightarrow> False))"

text \<open>The frames handed to \<open>onMessage\<close> one after the other.\<close>

definition deliver_all :: "runtime \<Rightarrow> sse_event list \<Rightarrow> attempt_state \<Rightarrow> attempt_state" where
  "deliver_all rt evs a = foldl (\<lambda>a ev. fst (gen_onMessage rt ev a)) a evs"

text \<open>The workouts of a list whose identifier does not occur earlier in the list, in the
  order of the list.\<close>

definition first_seen :: "json list \<Rightarrow> json list" where
  "first_seen ws =
     map (\<lambda>i. ws ! i) (filter (\<lambda>i. wid (ws ! i) \<notin> set (map wid (take i ws))) [0..<length ws])"

text \<open>The state of the callbacks when an attempt starts.\<close>

definition fresh_attempt :: "program_form \<Rightarrow> hook_state \<Rightarrow> attempt_state" where
  "fresh_attempt formData h = user (attempt_start formData h)"

text \<open>Every name under which \<open>dayNameToNumber[k]\<close> finds something.\<close>

definition day_keys :: "string list" where
  "day_keys = map fst dayNameToNumber @ object_prototype_members"

definition weekday_form :: program_form where
  "weekday_form =
     \<lparr>numberOfWeeks = 4, daysPerWeek = 3,
      daysOfWeek = [DayString ''mONDAY'', DayString ''funday'']\<rparr>"

definition constructor_form :: program_form where
  "constructor_form =
     \<lparr>numberOfWeeks = 4, daysPerWeek = 3, daysOfWeek = [DayString ''constructor'']\<rparr>"

definition invalid_form :: program_form where
  "invalid_form =
     \<lparr>numberOfWeeks = 4, daysPerWeek = 3,
      daysOfWeek = [DayString ''funday'', DayString [], DayOther]\<rparr>"

text \<open>The frame of the first sample workout, and the workout it carries.\<close>

definition w1_frame :: sse_event where
  "w1_frame = \<lparr>sse_event = None, sse_data = workout_text ''w1'', sse_id = None, sse_retry = None\<rparr>"

definition w1_workout :: json where
  "w1_workout = JObj [(''id'', JStr ''w1'')]"

text \<open>A pass that ended in an error which the loop retries.\<close>

definition retryable_end :: "attempt_end \<Rightarrow> bool" where
  "retryable_end x = (case x of Ended_error e \<Rightarrow> retryable e | _ \<Rightarrow> False)"

text \<open>The event that reports the headers of a response with status 200.\<close>

definition opens :: "xhr_event \<Rightarrow> bool" where
  "opens ev =
     (case ev of
        ReadyStateChange readyState status _ \<Rightarrow> readyState = HEADERS_RECEIVED \<and> status = 200
      | _ \<Rightarrow> False)"

text \<open>The error both clients build for a status they do not accept.\<close>

definition http_error :: "nat \<Rightarrow> js_error" where
  "http_error status = new_Error (''HTTP error! status: '' @ string_of_nat status)"

text \<open>The frame of the sample \<open>error\<close> payload.\<close>

definition error_frame :: sse_event where
  "error_frame = \<lparr>sse_event = None, sse_data = error_text, sse_id = None, sse_retry = None\<rparr>"

section \<open>The stream decoder does not depend on the chunking\<close>

lemma split_nn_nonempty: "split_nn s \<noteq> []"
  by (induction s rule: split_nn.induct) (auto split: list.splits)

lemma split_nn_step:
  "split_nn (a # b # rest) =
     (if a = NL \<and> b = NL then [] # split_nn rest
      else (a # hd (split_nn (b # rest))) # tl (split_nn (b # rest)))"
  using split_nn_nonempty [of "b # rest"] by (cases "split_nn (b # rest)") auto

lemmas split_nn_eqs = split_nn.simps(1,2) split_nn_step

declare split_nn.simps [simp del]

declare split_nn_eqs [simp]

text \<open>A text without the separator is its own single piece.\<close>

lemma split_nn_single: "split_nn s = [t] \<Longrightarrow> t = s"
proof (induction s arbitrary: t rule: split_nn.induct)
  case (3 a b rest)
  have ne: "split_nn (b # rest) \<noteq> []" by (rule split_nn_nonempty)
  from "3.prems" have nd: "\<not> (a = NL \<and> b = NL)"
    using split_nn_nonempty [of rest] by auto
  with "3.prems" have "tl (split_nn (b # rest)) = []" and t: "t = a # hd (split_nn (b # rest))"
    by auto
  with ne have "split_nn (b # rest) = [hd (split_nn (b # rest))]"
    by (cases "split_nn (b # rest)") auto
  with "3.IH"(2) nd have "hd (split_nn (b # rest)) = b # rest" by blast
  with t show ?case by simp
qed auto

text \<open>Splitting a text in two parts: the complete pieces of the first part stay, and its
  last piece is split again with the second part behind it.\<close>

lemma split_nn_append:
  "split_nn (xs @ ys) = butlast (split_nn xs) @ split_nn (last (split_nn xs) @ ys)"
proof (induction xs rule: split_nn.induct)
  case 1
  show ?case by simp
next
  case (2 a)
  show ?case by simp
next
  case (3 a b rest)
  show ?case
  proof (cases "a = NL \<and> b = NL")
    case True
    with "3.IH"(1) show ?thesis
      using split_nn_nonempty [of rest] by simp
  next
    case False
    let ?S = "split_nn (b # rest)"
    have ne: "?S \<noteq> []" by (rule split_nn_nonempty)
    have ih: "split_nn ((b # rest) @ ys) = butlast ?S @ split_nn (last ?S @ ys)"
      using "3.IH"(2) False by blast
    have lhs: "split_nn ((a # b # rest) @ ys) =
        (a # hd (split_nn ((b # rest) @ ys))) # tl (split_nn ((b # rest) @ ys))"
      using False by simp
    show ?thesis
    proof (cases "tl ?S = []")
      case True
      with ne have S: "?S = [hd ?S]" by (cases ?S) auto
      then have hd: "hd ?S = b # rest" using split_nn_single by metis
      have "split_nn (a # b # rest) = [a # b # rest]"
        using False S hd by simp
      then show ?thesis by simp
    next
      case nt: False
      then obtain s t ts where S: "?S = s # t # ts"
        using ne by (cases ?S; cases "tl ?S") auto
      have r: "split_nn (a # b # rest) = (a # s) # t # ts"
        using False S by simp
      have "split_nn ((a # b # rest) @ ys) =
          (a # hd (butlast ?S @ split_nn (last ?S @ ys))) # tl (butlast ?S @ split_nn (last ?S @ ys))"
        using lhs ih by simp
      also have "\<dots> = ((a # s) # butlast (t # ts)) @ split_nn (last (t # ts) @ ys)"
        using S by simp
      also have "\<dots> = butlast (split_nn (a # b # rest)) @ split_nn (last (split_nn (a # b # rest)) @ ys)"
        using r by simp
      finally show ?thesis .
    qed
  qed
qed

text \<open>The piece kept in the buffer holds no separator.\<close>

lemma split_nn_last: "split_nn (last (split_nn s)) = [last (split_nn s)]"
proof (induction s rule: split_nn.induct)
  case (3 a b rest)
  show ?case
  proof (cases "a = NL \<and> b = NL")
    case True
    with "3.IH"(1) show ?thesis using split_nn_nonempty [of rest] by simp
  next
    case False
    let ?S = "split_nn (b # rest)"
    have ne: "?S \<noteq> []" by (rule split_nn_nonempty)
    have ih: "split_nn (last ?S) = [last ?S]" using "3.IH"(2) False by blast
    show ?thesis
    proof (cases "tl ?S = []")
      case True
      with ne have S: "?S = [hd ?S]" by (cases ?S) auto
      then have hd: "hd ?S = b # rest" using split_nn_single by metis
      have w: "split_nn (a # b # rest) = [a # b # rest]"
        using False S hd by simp
      then show ?thesis by simp
    next
      case nt: False
      then obtain s t ts where S: "?S = s # t # ts"
        using ne by (cases ?S; cases "tl ?S") auto
      have "last (split_nn (a # b # rest)) = last ?S"
        using False S by auto
      with ih show ?thesis by simp
    qed
  qed
qed auto

lemma frames_of_append: "frames_of (xs @ ys) = frames_of xs @ frames_of ys"
  by (simp add: frames_of_def map_filter_def)

lemma decode_new_step: "split_nn b = [b] \<Longrightarrow> decode_new b d = decode_step b d"
  by (simp add: decode_new_def decode_step_def frames_of_def map_filter_def)

lemma decode_step_buffer: "split_nn (fst (decode_step b d)) = [fst (decode_step b d)]"
  by (simp add: decode_step_def Let_def split_nn_last)

lemma decode_step_append:
  "decode_step b (c @ d) =
     (fst (decode_step (fst (decode_step b c)) d),
      snd (decode_step b c) @ snd (decode_step (fst (decode_step b c)) d))"
proof -
  let ?S = "split_nn (b @ c)"
  let ?T = "split_nn (last ?S @ d)"
  have T: "?T \<noteq> []" by (rule split_nn_nonempty)
  have "split_nn (b @ c @ d) = butlast ?S @ ?T"
    using split_nn_append [of "b @ c" d] by simp
  then show ?thesis
    using T by (simp add: decode_step_def Let_def frames_of_append butlast_append)
qed

lemma feed_all_decode:
  "split_nn b = [b] \<Longrightarrow> feed_all b cs = decode_step b (concat cs)"
proof (induction cs arbitrary: b)
  case Nil
  then show ?case by (simp add: decode_step_def frames_of_def map_filter_def)
next
  case (Cons c cs)
  have "feed_all (fst (decode_step b c)) cs = decode_step (fst (decode_step b c)) (concat cs)"
    by (rule Cons.IH) (rule decode_step_buffer)
  then show ?case
    using Cons.prems by (simp add: decode_new_step decode_step_append Let_def)
qed

text \<open>
  C3. Starting from an empty buffer, feeding a text in any chunks gives the same frames in
  the same order, and leaves the same buffer, as feeding the whole text in one chunk: the
  frames are those of the complete pieces of the whole text, and the buffer is its last,
  incomplete piece, which is kept and not delivered.
\<close>

theorem chunking_independent:
  "feed_all [] cs = feed_all [] [concat cs] \<and>
   fst (feed_all [] cs) = last (split_nn (concat cs)) \<and>
   snd (feed_all [] cs) = frames_of (butlast (split_nn (concat cs)))"
  by (simp add: feed_all_decode decode_new_step decode_step_def Let_def)

section \<open>Frames without data are not delivered\<close>

lemma data_not_event: "startsWith l ''data:'' \<Longrightarrow> \<not> startsWith l ''event:''"
  by (cases l) (auto simp: startsWith_def)

lemma parse_line_keeps_empty:
  "sse_data e = [] \<Longrightarrow> (startsWith l ''data:'' \<longrightarrow> trim (drop 5 l) = []) \<Longrightarrow>
   sse_data (parse_line e l) = []"
  by (simp add: parse_line_def Let_def split: option.splits)

lemma parse_line_keeps_data:
  "sse_data e \<noteq> [] \<Longrightarrow> sse_data (parse_line e l) \<noteq> []"
  by (simp add: parse_line_def Let_def split: option.splits)

lemma parse_line_gets_data:
  "startsWith l ''data:'' \<Longrightarrow> trim (drop 5 l) \<noteq> [] \<Longrightarrow> sse_data (parse_line e l) \<noteq> []"
  using data_not_event [of l] by (simp add: parse_line_def Let_def)

lemma foldl_keeps_data:
  "sse_data e \<noteq> [] \<Longrightarrow> sse_data (foldl parse_line e ls) \<noteq> []"
  by (induction ls arbitrary: e) (simp_all add: parse_line_keeps_data)

text \<open>The parser has accumulated no data exactly when every \<open>data:\<close> line of the message
  has an empty value.\<close>

lemma foldl_data_empty:
  "sse_data e = [] \<Longrightarrow>
   (sse_data (foldl parse_line e ls) = []) =
   (\<forall>l \<in> set ls. startsWith l ''data:'' \<longrightarrow> trim (drop 5 l) = [])"
proof (induction ls arbitrary: e)
  case Nil
  then show ?case by simp
next
  case (Cons l ls)
  show ?case
  proof (cases "startsWith l ''data:'' \<and> trim (drop 5 l) \<noteq> []")
    case True
    then have "sse_data (parse_line e l) \<noteq> []" by (simp add: parse_line_gets_data)
    then have "sse_data (foldl parse_line (parse_line e l) ls) \<noteq> []" by (rule foldl_keeps_data)
    with True show ?thesis by auto
  next
    case False
    then have "sse_data (parse_line e l) = []"
      using Cons.prems by (intro parse_line_keeps_empty) auto
    from Cons.IH [OF this] False show ?thesis by auto
  qed
qed

text \<open>
  C8. A message that accumulates no data (it has no \<open>data:\<close> line, or only \<open>data:\<close> lines
  with an empty value: for instance a lone \<open>event: ping\<close> line, or blank and unrecognised
  lines only) is parsed to nothing by \<open>parseSSEMessage\<close>, and among the messages of a chunk
  it contributes no frame to the ones handed to \<open>onMessage\<close>.
\<close>

theorem no_data_no_frame:
  "(\<forall>l \<in> set (split_lines m). startsWith l ''data:'' \<longrightarrow> trim (drop 5 l) = []) \<Longrightarrow>
   parseSSEMessage m = None \<and> frames_of (pre @ m # post) = frames_of pre @ frames_of post"
  using foldl_data_empty [of empty_event "split_lines m"]
  by (simp add: parseSSEMessage_def empty_event_def Let_def frames_of_def map_filter_def frame_of_def)

lemma ping_lines: "split_lines ''event: ping'' = [''event: ping'']"
  by (simp add: NL_def)

theorem no_data_no_frame_witness:
  "parseSSEMessage ''event: ping'' = None \<and> frames_of [''event: ping''] = []"
proof -
  have h: "\<forall>l \<in> set (split_lines ''event: ping''). startsWith l ''data:'' \<longrightarrow> trim (drop 5 l) = []"
    by (simp add: ping_lines startsWith_def)
  show ?thesis
    using no_data_no_frame [OF h, of "[]" "[]"] by (simp add: frames_of_def map_filter_def)
qed

section \<open>Weekday names in the request\<close>

lemma of_char_to_lower:
  "(of_char (to_lower c) :: nat) =
     (if 65 \<le> (of_char c :: nat) \<and> (of_char c :: nat) \<le> 90 then of_char c + 32 else of_char c)"
  by (simp add: to_lower_def)

lemma of_char_to_upper:
  "(of_char (to_upper c) :: nat) =
     (if 97 \<le> (of_char c :: nat) \<and> (of_char c :: nat) \<le> 122 then of_char c - 32 else of_char c)"
  by (auto simp: to_upper_def intro!: mod_less)

lemma to_upper_cong: "to_lower c = to_lower d \<Longrightarrow> to_upper c = to_upper d"
proof -
  assume "to_lower c = to_lower d"
  then have "(of_char (to_lower c) :: nat) = of_char (to_lower d)" by simp
  then have "(of_char (to_upper c) :: nat) = of_char (to_upper d)"
    unfolding of_char_to_lower of_char_to_upper by (auto split: if_splits)
  then show ?thesis by simp
qed

lemma capitalize_cong:
  assumes "map to_lower s = map to_lower t"
  shows "capitalize s = capitalize t"
proof -
  have len: "length s = length t" using assms by (metis length_map)
  have tl: "map to_lower (drop 1 s) = map to_lower (drop 1 t)"
    using assms by (metis drop_map)
  have "map to_lower (take 1 s) = map to_lower (take 1 t)"
    using assms by (metis take_map)
  then have hd: "map to_upper (take 1 s) = map to_upper (take 1 t)"
    using len by (cases s; cases t) (auto intro: to_upper_cong)
  show ?thesis unfolding capitalize_def tl hd by (rule refl)
qed

lemma lower_keys_distinct: "distinct (map (map to_lower) day_keys)"
  by code_simp

lemma names_capitalized: "\<forall>name \<in> set (map fst dayNameToNumber). capitalize name = name"
  by code_simp

lemma lookup_day_key: "lookup_day k \<noteq> None \<Longrightarrow> k \<in> set day_keys"
  by (force simp: lookup_day_def day_keys_def split: option.splits if_splits dest: map_of_SomeD)

lemma lookup_day_name: "(name, n) \<in> set dayNameToNumber \<Longrightarrow> lookup_day name = Some (DayCode n)"
proof -
  assume a: "(name, n) \<in> set dayNameToNumber"
  have "distinct (map fst dayNameToNumber)" by code_simp
  with a have "map_of dayNameToNumber name = Some n" by simp
  then show ?thesis by (simp add: lookup_day_def)
qed

lemma day_codes: "(name, n) \<in> set dayNameToNumber \<Longrightarrow> 0 \<le> n \<and> n \<le> 6"
  by (auto simp: dayNameToNumber_def)

lemma day_name_any_case:
  assumes tab: "(name, n) \<in> set dayNameToNumber" and eq: "map to_lower s = map to_lower name"
  shows "day_to_number (DayString s) = Some (DayCode n)"
proof -
  have nk: "name \<in> set day_keys" using tab by (force simp: day_keys_def)
  have nm: "name \<in> set (map fst dayNameToNumber)" using tab by force
  have ne: "s \<noteq> []" using eq tab by (auto simp: dayNameToNumber_def)
  have cap: "capitalize s = name"
    using capitalize_cong [OF eq] names_capitalized [rule_format, OF nm] by simp
  have inj: "inj_on (map to_lower) (set day_keys)"
    using lower_keys_distinct by (simp add: distinct_map)
  show ?thesis
  proof (cases "lookup_day s = None")
    case True
    then show ?thesis using ne cap lookup_day_name [OF tab] by (simp add: day_to_number_def)
  next
    case False
    then have "s \<in> set day_keys" by (rule lookup_day_key)
    with inj nk eq have "s = name" by (auto dest: inj_onD)
    then show ?thesis using ne lookup_day_name [OF tab] by (simp add: day_to_number_def)
  qed
qed

text \<open>
  What the preparation of the days does. A weekday name in any mix of upper and lower case
  is mapped to the code of the day in \<open>dayNameToNumber\<close>, an integer from 0 (Sunday) to 6
  (Saturday): by the exact lookup, or else by the lookup of the name with its first letter
  in upper case and the rest in lower case. A name under which neither lookup finds
  anything is dropped. When every entry of the list is dropped (the empty list included),
  the request carries the days \<open>[1, 3, 5]\<close>; otherwise it carries the mapped entries in
  their order. The lookups are those of the object literal \<open>dayNameToNumber\<close>, inherited
  members included.
\<close>

lemma weekday_mapping:
  "((name, n) \<in> set dayNameToNumber \<and> map to_lower s = map to_lower name \<longrightarrow>
      day_to_number (DayString s) = Some (DayCode n) \<and> 0 \<le> n \<and> n \<le> 6) \<and>
   (lookup_day t = None \<and> lookup_day (capitalize t) = None \<longrightarrow>
      day_to_number (DayString t) = None) \<and>
   ((\<forall>d \<in> set (daysOfWeek formData). day_to_number d = None) \<longrightarrow>
      days_of_week (requestBody formData isRegeneration) = [DayCode 1, DayCode 3, DayCode 5]) \<and>
   ((\<exists>d \<in> set (daysOfWeek formData). day_to_number d \<noteq> None) \<longrightarrow>
      days_of_week (requestBody formData isRegeneration) =
        List.map_filter day_to_number (daysOfWeek formData))"
proof (intro conjI impI)
  assume "(name, n) \<in> set dayNameToNumber \<and> map to_lower s = map to_lower name"
  then show "day_to_number (DayString s) = Some (DayCode n)" using day_name_any_case by blast
next
  assume "(name, n) \<in> set dayNameToNumber \<and> map to_lower s = map to_lower name"
  then show "0 \<le> n" "n \<le> 6" using day_codes by auto
next
  assume "lookup_day t = None \<and> lookup_day (capitalize t) = None"
  then show "day_to_number (DayString t) = None" by (simp add: day_to_number_def)
next
  assume "\<forall>d \<in> set (daysOfWeek formData). day_to_number d = None"
  then have "List.map_filter day_to_number (daysOfWeek formData) = []"
    by (auto simp: map_filter_def filter_empty_conv)
  then show "days_of_week (requestBody formData isRegeneration) = [DayCode 1, DayCode 3, DayCode 5]"
    by (simp add: requestBody_def daysOfWeekNumbers_def)
next
  assume "\<exists>d \<in> set (daysOfWeek formData). day_to_number d \<noteq> None"
  then have "List.map_filter day_to_number (daysOfWeek formData) \<noteq> []"
    by (auto simp: map_filter_def filter_empty_conv)
  then show "days_of_week (requestBody formData isRegeneration) =
        List.map_filter day_to_number (daysOfWeek formData)"
    by (simp add: requestBody_def daysOfWeekNumbers_def Let_def)
qed

lemma monday_any_case: "(''Monday'', 1) \<in> set dayNameToNumber \<and> map to_lower ''mONDAY'' = map to_lower ''Monday''"
  by code_simp
lemma funday_unknown: "lookup_day ''funday'' = None \<and> lookup_day (capitalize ''funday'') = None"
  by code_simp
lemma invalid_form_days: "\<forall>d \<in> set (daysOfWeek invalid_form). day_to_number d = None"
  by code_simp
lemma weekday_form_days: "\<exists>d \<in> set (daysOfWeek weekday_form). day_to_number d \<noteq> None"
  by code_simp
lemma weekday_form_numbers: "List.map_filter day_to_number (daysOfWeek weekday_form) = [DayCode 1]"
  by code_simp

lemma weekday_mapping_sample:
  "day_to_number (DayString ''mONDAY'') = Some (DayCode 1) \<and>
   day_to_number (DayString ''funday'') = None \<and>
   days_of_week (requestBody invalid_form False) = [DayCode 1, DayCode 3, DayCode 5] \<and>
   days_of_week (requestBody weekday_form False) = [DayCode 1]"
  using weekday_mapping [of "''Monday''" 1 "''mONDAY''" "''funday''" invalid_form False]
    weekday_mapping [of "''Monday''" 1 "''mONDAY''" "''funday''" weekday_form False]
    monday_any_case funday_unknown invalid_form_days weekday_form_days weekday_form_numbers
  by simp

text \<open>
  C9 at a concrete list: the only entry is the string \<open>constructor\<close>, which is no weekday
  name in any case. The exact lookup \<open>dayNameToNumber[day]\<close> finds the member of that name
  which the object literal inherits, so the entry is not dropped, the list of days is not
  empty, and the request does not carry the default days \<open>[1, 3, 5]\<close>: its only day is the
  inherited member, which is no day code.
\<close>

theorem inherited_name_is_not_dropped:
  "day_to_number (DayString ''constructor'') = Some (Inherited ''constructor'') \<and>
   days_of_week (requestBody constructor_form False) = [Inherited ''constructor''] \<and>
   days_of_week (requestBody constructor_form False) \<noteq> [DayCode 1, DayCode 3, DayCode 5]"
  by code_simp

section \<open>Streamed workouts are counted once\<close>

lemma chunk_step:
  assumes "is_chunk rt ev w"
  shows "fst (gen_onMessage rt ev a) =
     (if wid w \<in> set (processedWorkouts a) then a
      else a\<lparr>processedWorkouts := processedWorkouts a @ [wid w],
             hook := (hook a)\<lparr>streamingWorkouts := streamingWorkouts (hook a) @ [w],
                              progress_current := Suc (length (processedWorkouts a))\<rparr>\<rparr>)"
proof -
  from assms obtain d kvs s where
    p: "json_parse rt (sse_data ev) = Some d" and
    t: "get_prop d ''type'' = Some (JStr ''workout_chunk'')" and
    w: "get_prop d ''workout'' = Some w" and
    o: "w = JObj kvs" and i: "wid w = Some (JStr s)"
    by (auto simp: is_chunk_def split: option.splits json.splits)
  from t have nn: "d \<noteq> JNull" by (auto simp: get_prop_def)
  have has: "set_has (processedWorkouts a) (get_prop w ''id'') = (wid w \<in> set (processedWorkouts a))"
    using i by (simp add: set_has_def wid_def)
  show ?thesis
    using p t w nn has o
    by (cases d) (simp_all add: gen_onMessage_def Let_def wid_def)
qed

text \<open>A \<open>workout_chunk\<close> frame never makes the callback throw.\<close>

lemma chunk_silent:
  assumes "is_chunk rt ev w"
  shows "snd (gen_onMessage rt ev a) = None"
proof -
  from assms obtain d where
    p: "json_parse rt (sse_data ev) = Some d" and
    t: "get_prop d ''type'' = Some (JStr ''workout_chunk'')" and
    w: "get_prop d ''workout'' = Some w"
    by (auto simp: is_chunk_def split: option.splits)
  from t have nn: "d \<noteq> JNull" by (auto simp: get_prop_def)
  show ?thesis
    using p t w nn by (cases d) (simp_all add: gen_onMessage_def Let_def)
qed

lemma first_seen_snoc:
  "first_seen (ws @ [w]) = first_seen ws @ (if wid w \<in> set (map wid ws) then [] else [w])"
proof -
  have a: "filter (\<lambda>i. wid ((ws @ [w]) ! i) \<notin> set (map wid (take i (ws @ [w])))) [0..<length ws]
         = filter (\<lambda>i. wid (ws ! i) \<notin> set (map wid (take i ws))) [0..<length ws]"
    by (rule filter_cong) (auto simp: nth_append)
  have b: "map (\<lambda>i. (ws @ [w]) ! i) (filter (\<lambda>i. wid (ws ! i) \<notin> set (map wid (take i ws))) [0..<length ws])
         = map (\<lambda>i. ws ! i) (filter (\<lambda>i. wid (ws ! i) \<notin> set (map wid (take i ws))) [0..<length ws])"
    by (rule map_cong) (auto simp: nth_append)
  show ?thesis
    unfolding first_seen_def using a b by (simp add: nth_append)
qed

lemma first_seen_ids: "set (map wid (first_seen ws)) = set (map wid ws)"
proof (induction ws rule: rev_induct)
  case Nil
  show ?case by (simp add: first_seen_def)
next
  case (snoc w ws)
  then show ?case by (auto simp: first_seen_snoc)
qed

lemma first_seen_distinct: "distinct (map wid (first_seen ws))"
proof (induction ws rule: rev_induct)
  case Nil
  show ?case by (simp add: first_seen_def)
next
  case (snoc w ws)
  then show ?case using first_seen_ids [of ws] by (auto simp: first_seen_snoc)
qed

lemma deliver_all_snoc:
  "deliver_all rt (evs @ [ev]) a = fst (gen_onMessage rt ev (deliver_all rt evs a))"
  by (simp add: deliver_all_def)

lemma deliver_chunks:
  assumes "list_all2 (is_chunk rt) evs ws"
    and "processedWorkouts a = []" and "streamingWorkouts (hook a) = []"
    and "progress_current (hook a) = 0"
  shows "processedWorkouts (deliver_all rt evs a) = map wid (first_seen ws) \<and>
         streamingWorkouts (hook (deliver_all rt evs a)) = first_seen ws \<and>
         progress_current (hook (deliver_all rt evs a)) = length (first_seen ws)"
  using assms(1)
proof (induction evs arbitrary: ws rule: rev_induct)
  case Nil
  then show ?case using assms(2-4) by (simp add: deliver_all_def first_seen_def)
next
  case (snoc ev evs)
  from snoc.prems obtain ws' w where
    ws: "ws = ws' @ [w]" and all: "list_all2 (is_chunk rt) evs ws'" and c: "is_chunk rt ev w"
    by (auto simp: list_all2_append1 list_all2_Cons1)
  note ih = snoc.IH [OF all]
  show ?case
    using ih first_seen_ids [of ws']
    by (simp add: ws deliver_all_snoc chunk_step [OF c] first_seen_snoc)
qed

text \<open>
  C4. Within one attempt, let the frames handed to \<open>onMessage\<close> carry \<open>workout_chunk\<close>
  payloads with the workouts \<open>ws\<close>, the callbacks starting from the state in which the
  client is called with no streamed workout yet. After any first \<open>n\<close> of the frames, the
  list of streamed workouts holds exactly the workouts whose identifier had not occurred
  before, in the order they came, each identifier once, and the progress counter is the
  number of distinct identifiers seen so far, which is also the length of the list. A
  frame with an identifier seen before changes nothing, and none of the frames makes the
  callback throw.
\<close>

theorem workouts_deduplicated:
  assumes "list_all2 (is_chunk rt) evs ws" and "streamingWorkouts h = []"
  shows "streamingWorkouts (hook (deliver_all rt (take n evs) (fresh_attempt formData h))) =
           first_seen (take n ws) \<and>
         distinct (map wid (streamingWorkouts
           (hook (deliver_all rt (take n evs) (fresh_attempt formData h))))) \<and>
         set (map wid (streamingWorkouts
           (hook (deliver_all rt (take n evs) (fresh_attempt formData h))))) =
           set (map wid (take n ws)) \<and>
         progress_current (hook (deliver_all rt (take n evs) (fresh_attempt formData h))) =
           card (set (map wid (take n ws))) \<and>
         progress_current (hook (deliver_all rt (take n evs) (fresh_attempt formData h))) =
           length (streamingWorkouts
             (hook (deliver_all rt (take n evs) (fresh_attempt formData h)))) \<and>
         list_all (\<lambda>ev. snd (gen_onMessage rt ev a) = None) evs"
proof -
  have quiet: "list_all (\<lambda>ev. snd (gen_onMessage rt ev a) = None) evs"
    using assms(1) by (induction rule: list_all2_induct) (simp_all add: chunk_silent)
  have l: "list_all2 (is_chunk rt) (take n evs) (take n ws)"
    using assms(1) by (rule list_all2_takeI)
  have s: "processedWorkouts (fresh_attempt formData h) = []"
     "streamingWorkouts (hook (fresh_attempt formData h)) = []"
     "progress_current (hook (fresh_attempt formData h)) = 0"
    using assms(2) by (simp_all add: fresh_attempt_def attempt_start_def sse_init_def)
  have "card (set (map wid (take n ws))) = length (first_seen (take n ws))"
    using first_seen_ids [of "take n ws"] first_seen_distinct [of "take n ws"]
    by (metis distinct_card length_map)
  then show ?thesis
    using deliver_chunks [OF l s] first_seen_distinct [of "take n ws"]
      first_seen_ids [of "take n ws"] quiet by simp
qed

lemma w1_is_chunk: "is_chunk sample_runtime w1_frame w1_workout"
  by (simp add: is_chunk_def sample_runtime_def sample_parse_def w1_frame_def workout_json_def
      w1_workout_def get_prop_def wid_def)

lemma w1_twice: "first_seen [w1_workout, w1_workout] = [w1_workout]"
  by (simp add: first_seen_def upt_rec)

lemma init_stream: "streamingWorkouts initial_hook = []"
  by (simp add: initial_hook_def)

theorem workouts_deduplicated_witness:
  "length (streamingWorkouts (hook (deliver_all sample_runtime [w1_frame, w1_frame]
       (fresh_attempt sample_form initial_hook)))) = 1 \<and>
   progress_current (hook (deliver_all sample_runtime [w1_frame, w1_frame]
       (fresh_attempt sample_form initial_hook))) = 1"
proof -
  have l: "list_all2 (is_chunk sample_runtime) [w1_frame, w1_frame] [w1_workout, w1_workout]"
    by (simp add: w1_is_chunk)
  show ?thesis
    using workouts_deduplicated [OF l init_stream, of 2 sample_form]
    by (simp add: w1_twice)
qed

section \<open>Callbacks of the two clients\<close>

lemma digit_char_is_digit: "d < 10 \<Longrightarrow> is_digit (digit_char d)"
  by (simp add: is_digit_def digit_char_def)

lemma string_of_nat_digits: "\<forall>c \<in> set (string_of_nat n). is_digit c"
proof (induction n rule: string_of_nat.induct)
  case (1 n)
  show ?case
  proof (cases "n < 10")
    case True
    then show ?thesis by (simp add: string_of_nat.simps [of n] digit_char_is_digit)
  next
    case False
    then show ?thesis using "1.IH"
      by (simp add: string_of_nat.simps [of n] digit_char_is_digit)
  qed
qed

lemma digits_no_abort: "\<forall>c \<in> set ds. is_digit c \<Longrightarrow> \<not> includes_str ds ''abort''"
  by (induction ds) (auto simp: startsWith_def is_digit_def)

lemma status_text_no_abort:
  "\<forall>c \<in> set ds. is_digit c \<Longrightarrow> \<not> includes_str (''HTTP error! status: '' @ ds) ''abort''"
  using digits_no_abort [of ds] by (auto simp: startsWith_def)

lemma http_error_not_abort:
  "err_name (http_error status) \<noteq> ''AbortError'' \<and>
   \<not> includes_str (err_message (http_error status)) ''abort''"
  using status_text_no_abort [OF string_of_nat_digits, of status]
  by (simp add: http_error_def new_Error_def del: includes_str.simps)

lemma emit_all_opens:
  "count_list (calls (fst (emit_all opts evs st))) OnOpen = count_list (calls st) OnOpen"
  by (induction evs arbitrary: st) (auto simp: Let_def split: option.splits)

lemma sse_catch_opens:
  "count_list (calls (sse_catch opts e st)) OnOpen = count_list (calls st) OnOpen"
  by (simp add: sse_catch_def call_onClose_def Let_def)

lemma deliver_opens:
  "count_list (calls (sse_deliver opts ev st)) OnOpen =
     count_list (calls st) OnOpen + (if opens ev then 1 else 0)"
  by (cases ev)
    (auto simp: sse_deliver_def sse_handle_def onreadystatechange_def sse_reject_def
      sse_resolve_def call_onOpen_def call_onClose_def sse_catch_opens emit_all_opens opens_def
      Let_def HEADERS_RECEIVED_def LOADING_def DONE_def split: option.splits)

lemma run_opens:
  "count_list (calls (sse_run opts evs st)) OnOpen =
     count_list (calls st) OnOpen + length (filter opens evs)"
  unfolding sse_run_def
  by (induction evs arbitrary: st) (simp_all add: deliver_opens)

lemma post_not_ok:
  assumes "status \<noteq> 200" and "settled st = None"
  shows "calls (sse_deliver opts (ReadyStateChange HEADERS_RECEIVED status rtext) st) =
           calls st @ [OnError (http_error status)] \<and>
         settled (sse_deliver opts (ReadyStateChange HEADERS_RECEIVED status rtext) st) \<noteq> None"
  using assms http_error_not_abort [of status]
  by (simp add: sse_deliver_def sse_handle_def onreadystatechange_def sse_reject_def
      sse_catch_def Let_def http_error_def)

lemma post_abort:
  "calls (sse_deliver opts XhrAbort st) = calls st @ [OnClose]"
  by (simp add: sse_deliver_def sse_handle_def sse_resolve_def call_onClose_def)

lemma read_loop_opens:
  "count_list (calls (fst (read_loop opts steps st))) OnOpen = count_list (calls st) OnOpen"
  by (induction opts steps st rule: read_loop.induct)
     (auto simp: Let_def emit_all_opens split: option.splits)

lemma get_catch_opens:
  "count_list (calls (get_catch opts e st)) OnOpen = count_list (calls st) OnOpen"
  by (simp add: get_catch_def call_onClose_def Let_def)

lemma get_ok:
  assumes "200 \<le> status" and "status \<le> 299"
  shows "count_list (calls (createSSEClient opts (FetchResponse status True steps) u)) OnOpen = 1"
  using assms
  by (simp add: createSSEClient_def Let_def get_catch_opens read_loop_opens call_onClose_def
      call_onOpen_def sse_init_def split: option.splits)

lemma get_not_ok:
  assumes "\<not> (200 \<le> status \<and> status \<le> 299)"
  shows "calls (createSSEClient opts (FetchResponse status has_body steps) u) =
           [OnError (http_error status)]"
  using assms http_error_not_abort [of status]
  by (auto simp: createSSEClient_def get_catch_def Let_def sse_init_def http_error_def)

lemma get_abort:
  "calls (createSSEClient opts (FetchFails (JsError ''AbortError'' m)) u) = [OnClose]"
  by (simp add: createSSEClient_def get_catch_def call_onClose_def sse_init_def)

text \<open>
  C7, as the code has it. POST client: \<open>onOpen\<close> is invoked once for each
  \<open>readystatechange\<close> that reports the headers of a response with status exactly 200, and
  at no other event. When the headers report any other status (another 2xx status
  included) and the call is still pending, \<open>onOpen\<close> is not invoked, \<open>onError\<close> is invoked
  with the error \<open>HTTP error! status: N\<close> and the call settles. An \<open>abort\<close> event invokes
  \<open>onClose\<close> and not \<open>onError\<close>. GET client: a response with a status from 200 to 299 and
  a body invokes \<open>onOpen\<close> exactly once; a response with any other status invokes
  \<open>onError\<close> with the error \<open>HTTP error! status: N\<close> and no other callback; a request
  that fails with an \<open>AbortError\<close> invokes \<open>onClose\<close> and no other callback.
\<close>

theorem transport_callbacks:
  "count_list (calls (sse_run opts evs st)) OnOpen =
     count_list (calls st) OnOpen + length (filter opens evs) \<and>
   calls (sse_deliver opts (ReadyStateChange HEADERS_RECEIVED 200 rtext) st) = calls st @ [OnOpen] \<and>
   (status \<noteq> 200 \<and> settled st = None \<longrightarrow>
      calls (sse_deliver opts (ReadyStateChange HEADERS_RECEIVED status rtext) st) =
        calls st @ [OnError (http_error status)] \<and>
      settled (sse_deliver opts (ReadyStateChange HEADERS_RECEIVED status rtext) st) \<noteq> None) \<and>
   calls (sse_deliver opts XhrAbort st) = calls st @ [OnClose] \<and>
   (200 \<le> status' \<and> status' \<le> 299 \<longrightarrow>
      count_list (calls (createSSEClient opts (FetchResponse status' True steps) u)) OnOpen = 1) \<and>
   (\<not> (200 \<le> status' \<and> status' \<le> 299) \<longrightarrow>
      calls (createSSEClient opts (FetchResponse status' has_body steps) u) =
        [OnError (http_error status')]) \<and>
   calls (createSSEClient opts (FetchFails (JsError ''AbortError'' m)) u) = [OnClose]"
proof (intro conjI impI)
  show "count_list (calls (sse_run opts evs st)) OnOpen =
     count_list (calls st) OnOpen + length (filter opens evs)"
    by (rule run_opens)
  show "calls (sse_deliver opts (ReadyStateChange HEADERS_RECEIVED 200 rtext) st) = calls st @ [OnOpen]"
    by (simp add: sse_deliver_def sse_handle_def onreadystatechange_def call_onOpen_def Let_def
        HEADERS_RECEIVED_def LOADING_def DONE_def)
  show "calls (sse_deliver opts XhrAbort st) = calls st @ [OnClose]"
    by (rule post_abort)
  show "calls (createSSEClient opts (FetchFails (JsError ''AbortError'' m)) u) = [OnClose]"
    by (rule get_abort)
next
  assume a: "status \<noteq> 200 \<and> settled st = None"
  then show "calls (sse_deliver opts (ReadyStateChange HEADERS_RECEIVED status rtext) st) =
        calls st @ [OnError (http_error status)]"
    and "settled (sse_deliver opts (ReadyStateChange HEADERS_RECEIVED status rtext) st) \<noteq> None"
    using post_not_ok [of status st opts rtext] by simp_all
next
  assume "200 \<le> status' \<and> status' \<le> 299"
  then show "count_list (calls (createSSEClient opts (FetchResponse status' True steps) u)) OnOpen = 1"
    by (simp add: get_ok)
next
  assume "\<not> (200 \<le> status' \<and> status' \<le> 299)"
  then show "calls (createSSEClient opts (FetchResponse status' has_body steps) u) =
        [OnError (http_error status')]"
    by (rule get_not_ok)
qed

lemma plain_pending: "settled (sse_init ()) = None \<and> calls (sse_init ()) = []"
  by (simp add: sse_init_def)

theorem transport_callbacks_witness:
  "calls (sse_deliver plain_options (ReadyStateChange HEADERS_RECEIVED 503 []) (sse_init ())) =
     [OnError (http_error 503)] \<and>
   count_list (calls (createSSEClient plain_options (FetchResponse 204 True []) ())) OnOpen = 1 \<and>
   calls (createSSEClient plain_options (FetchResponse 404 True []) ()) = [OnError (http_error 404)]"
  using transport_callbacks [where opts = plain_options and st = "sse_init ()" and status = 503
      and status' = 204 and rtext = "[]" and steps = "[]" and u = "()"]
    transport_callbacks [where opts = plain_options and st = "sse_init ()" and status = 503
      and status' = 404 and has_body = True and steps = "[]" and u = "()"]
    plain_pending
  by simp

text \<open>
  C7 as it is stated fails for the POST client: a response with status 201 gets \<open>onError\<close>
  and no \<open>onOpen\<close>; and after the \<open>onError\<close> for a 503 response the request still reports
  that it is done, which invokes \<open>onClose\<close>.
\<close>

theorem created_status_is_an_error:
  "calls (sse_run plain_options [ReadyStateChange HEADERS_RECEIVED 201 []] (sse_init ())) =
     [OnError (new_Error ''HTTP error! status: 201'')] \<and>
   calls (sse_run plain_options
            [ReadyStateChange HEADERS_RECEIVED 503 [], ReadyStateChange DONE 503 []]
            (sse_init ())) =
     [OnError (new_Error ''HTTP error! status: 503''), OnClose]"
  by code_simp

section \<open>The retry loop\<close>

lemma run_events_settled: "settled st \<noteq> None \<Longrightarrow> run_events opts evs st = st"
  by (cases evs) simp_all

lemma run_events_append:
  "run_events opts (pre @ evs) st = run_events opts evs (run_events opts pre st)"
proof (induction pre arbitrary: st)
  case Nil
  show ?case by simp
next
  case (Cons ev pre)
  show ?case
  proof (cases "settled st = None")
    case True
    then show ?thesis using Cons.IH by simp
  next
    case False
    then show ?thesis by (simp add: run_events_settled)
  qed
qed

text \<open>The deadline firing on a request in flight: the request is aborted, both of its
  handlers call \<open>onClose\<close>, and the call of the client returns.\<close>

lemma timeout_step:
  assumes "settled st = None" and "timeout_pending (user st)" and "\<not> signal_aborted st"
    and "xhr_readyState st \<in> {OPENED, HEADERS_RECEIVED, LOADING}"
  shows "settled (attempt_step (gen_options rt) TimeoutFires st) = Some Returned \<and>
         calls (attempt_step (gen_options rt) TimeoutFires st) = calls st @ [OnClose, OnClose] \<and>
         hook (user (attempt_step (gen_options rt) TimeoutFires st)) = hook (user st) \<and>
         processedWorkouts (user (attempt_step (gen_options rt) TimeoutFires st)) =
           processedWorkouts (user st)"
  using assms
  by (auto simp: attempt_step_def signal_abort_def xhr_abort_events_def sse_deliver_def
      sse_handle_def onreadystatechange_def decode_new_def sse_resolve_def call_onClose_def
      gen_options_def gen_onClose_def Let_def
      OPENED_def HEADERS_RECEIVED_def LOADING_def DONE_def)

text \<open>A pass whose \<open>try\<close> block returns ends the run.\<close>

lemma succeeded_ends_run:
  assumes "k \<le> MAX_RETRIES" and "try_attempt rt formData (envs k) k h = Succeeded h' n"
  shows "retry_loop rt formData envs k le h es ds =
     \<lparr>result = Resolved \<lparr>success = True, workoutsCreated = n, result_error = None\<rparr>,
      final = h', ends = es @ [Ended_success n],
      delays = (if k > 0 then ds @ [RETRY_DELAY] else ds)\<rparr>"
  using assms by (simp add: retry_loop.simps [of _ _ _ k] Let_def)

lemmas loop_three =
  retry_loop.simps [of _ _ _ 0] retry_loop.simps [of _ _ _ "Suc 0"]
  retry_loop.simps [of _ _ _ "Suc (Suc 0)"]

lemma all_fail:
  assumes "list_all retryable_end (ends (retry_loop rt fd envs 0 None h [] []))"
  shows "length (ends (retry_loop rt fd envs 0 None h [] [])) = 3 \<and>
         delays (retry_loop rt fd envs 0 None h [] []) = [RETRY_DELAY, RETRY_DELAY] \<and>
         (\<exists>e. last (ends (retry_loop rt fd envs 0 None h [] [])) = Ended_error e \<and>
              result (retry_loop rt fd envs 0 None h [] []) =
                Resolved \<lparr>success = False, workoutsCreated = 0,
                           result_error = Some (err_message e)\<rparr>)"
  using assms
  by (auto simp: loop_three MAX_RETRIES_def failed_def Let_def retryable_end_def
      split: attempt_outcome.splits if_splits)

lemma one_retry:
  assumes "ends (retry_loop rt fd envs 0 None h [] []) = Ended_error e # Ended_success n # rest"
    and "retryable e"
  shows "rest = [] \<and>
         delays (retry_loop rt fd envs 0 None h [] []) = [RETRY_DELAY] \<and>
         result (retry_loop rt fd envs 0 None h [] []) =
                Resolved \<lparr>success = True, workoutsCreated = n, result_error = None\<rparr>"
  using assms
  by (auto simp: loop_three MAX_RETRIES_def failed_def Let_def
      split: attempt_outcome.splits if_splits)

lemma retry_loop_zero:
  "result (retry_loop rt formData envs k le h es ds) = Resolved r \<Longrightarrow> \<not> success r \<Longrightarrow>
   workoutsCreated r = 0"
proof (induction rt formData envs k le h es ds rule: retry_loop.induct)
  case (1 rt formData envs retryCount lastError h es ds)
  show ?case
  proof (cases "try_attempt rt formData (envs retryCount) retryCount h")
    case (Succeeded h' n)
    with "1.prems" show ?thesis
      by (auto simp: retry_loop.simps [of _ _ _ retryCount] failed_def Let_def split: if_splits)
  next
    case (Hangs h')
    with "1.prems" show ?thesis
      by (auto simp: retry_loop.simps [of _ _ _ retryCount] failed_def Let_def split: if_splits)
  next
    case (Caught h' e)
    show ?thesis
    proof (cases "retryCount \<le> MAX_RETRIES \<and> retryable e \<and> Suc retryCount \<le> MAX_RETRIES")
      case True
      then have "retry_loop rt formData envs retryCount lastError h es ds =
          retry_loop rt formData envs (Suc retryCount) (Some e) h' (es @ [Ended_error e])
            (if retryCount > 0 then ds @ [RETRY_DELAY] else ds)"
        using Caught by (simp add: retry_loop.simps [of _ _ _ retryCount] Let_def)
      with "1.IH" [OF _ refl Caught] True "1.prems" show ?thesis by simp
    next
      case False
      with "1.prems" Caught show ?thesis
        by (auto simp: retry_loop.simps [of _ _ _ retryCount] failed_def Let_def split: if_splits)
    qed
  qed
qed

text \<open>
  C2. In a run in which every pass of the loop ends in an error whose message matches the
  retried pattern, three passes are made (two retries), the same delay \<open>RETRY_DELAY\<close> is
  waited before each of the two retries, and the promise resolves with \<open>success: false\<close>,
  no workouts and the message of the last error. In a run whose first pass ends in such an
  error and whose second pass succeeds, these two passes are all, the delay is waited once,
  and the promise resolves with \<open>success: true\<close>.
\<close>

theorem retry_ceiling:
  assumes "r = generateProgram rt formData isRegeneration envs h"
  shows "(list_all retryable_end (ends r) \<longrightarrow>
            attempts r = 3 \<and> delays r = [RETRY_DELAY, RETRY_DELAY] \<and>
            (\<exists>e. last (ends r) = Ended_error e \<and>
                 result r = Resolved \<lparr>success = False, workoutsCreated = 0,
                                       result_error = Some (err_message e)\<rparr>)) \<and>
         (retryable e \<and> ends r = Ended_error e # Ended_success n # rest \<longrightarrow>
            rest = [] \<and> attempts r = 2 \<and> delays r = [RETRY_DELAY] \<and>
            result r = Resolved \<lparr>success = True, workoutsCreated = n, result_error = None\<rparr>)"
proof (intro conjI impI)
  assume "list_all retryable_end (ends r)"
  then have a: "list_all retryable_end (ends (retry_loop rt formData envs 0 None
      (h\<lparr>isGenerating := True, error := None, stage := Preparing, progress_current := 0,
         progress_total := 0, streamingWorkouts := [], timer_running := True\<rparr>) [] []))"
    by (simp add: assms generateProgram_def)
  note f = all_fail [OF a]
  from f show "attempts r = 3" by (simp add: assms generateProgram_def attempts_def)
  from f show "delays r = [RETRY_DELAY, RETRY_DELAY]" by (simp add: assms generateProgram_def)
  from f show "\<exists>e. last (ends r) = Ended_error e \<and>
      result r = Resolved \<lparr>success = False, workoutsCreated = 0,
                            result_error = Some (err_message e)\<rparr>"
    by (simp add: assms generateProgram_def)
next
  assume b: "retryable e \<and> ends r = Ended_error e # Ended_success n # rest"
  then have c: "ends (retry_loop rt formData envs 0 None
      (h\<lparr>isGenerating := True, error := None, stage := Preparing, progress_current := 0,
         progress_total := 0, streamingWorkouts := [], timer_running := True\<rparr>) [] []) =
      Ended_error e # Ended_success n # rest"
    by (simp add: assms generateProgram_def)
  from b have d: "retryable e" by simp
  note g = one_retry [OF c d]
  from g show "rest = []" by simp
  from g b show "attempts r = 2" by (simp add: attempts_def)
  from g show "delays r = [RETRY_DELAY]" by (simp add: assms generateProgram_def)
  from g show "result r = Resolved \<lparr>success = True, workoutsCreated = n, result_error = None\<rparr>"
    by (simp add: assms generateProgram_def)
qed

lemma unavailable_ends:
  "ends (generateProgram sample_runtime sample_form False unavailable_envs initial_hook) =
     [Ended_error (http_error 503), Ended_error (http_error 503), Ended_error (http_error 503)]"
  by code_simp

lemma unavailable_retryable: "retryable_end (Ended_error (http_error 503))"
  by code_simp

lemma recovering_ends:
  "ends (generateProgram sample_runtime sample_form False recovering_envs initial_hook) =
     [Ended_error (http_error 503), Ended_success 2]"
  by code_simp

lemma http_error_503: "err_message (http_error 503) = ''HTTP error! status: 503''"
  by code_simp

theorem retry_ceiling_witness:
  "attempts (generateProgram sample_runtime sample_form False unavailable_envs initial_hook) = 3 \<and>
   delays (generateProgram sample_runtime sample_form False unavailable_envs initial_hook) =
     [3000, 3000] \<and>
   result (generateProgram sample_runtime sample_form False unavailable_envs initial_hook) =
     Resolved \<lparr>success = False, workoutsCreated = 0,
                result_error = Some ''HTTP error! status: 503''\<rparr> \<and>
   attempts (generateProgram sample_runtime sample_form False recovering_envs initial_hook) = 2 \<and>
   delays (generateProgram sample_runtime sample_form False recovering_envs initial_hook) = [3000] \<and>
   result (generateProgram sample_runtime sample_form False recovering_envs initial_hook) =
     Resolved \<lparr>success = True, workoutsCreated = 2, result_error = None\<rparr>"
  using retry_ceiling [OF refl, of sample_runtime sample_form False unavailable_envs initial_hook
      "http_error 503" 2 "[]"]
    retry_ceiling [OF refl, of sample_runtime sample_form False recovering_envs initial_hook
      "http_error 503" 2 "[]"]
    unavailable_ends recovering_ends unavailable_retryable http_error_503
  by (simp add: RETRY_DELAY_def retryable_end_def)

text \<open>
  C10. Whenever the promise of \<open>generateProgram\<close> resolves with \<open>success: false\<close>, its
  \<open>workoutsCreated\<close> is 0, whatever was streamed during the passes that failed.
\<close>

theorem failure_reports_no_workouts:
  "result (generateProgram rt formData isRegeneration envs h) = Resolved r \<Longrightarrow> \<not> success r \<Longrightarrow>
   workoutsCreated r = 0"
  unfolding generateProgram_def by (rule retry_loop_zero)

lemma dropped_run:
  "result (generateProgram sample_runtime sample_form False dropped_envs initial_hook) =
     Resolved \<lparr>success = False, workoutsCreated = 0, result_error = Some ''Network error''\<rparr>"
  by code_simp

lemma dropped_streamed:
  "streamingWorkouts
     (final (generateProgram sample_runtime sample_form False dropped_envs initial_hook)) =
     [w1_workout]"
  by code_simp

theorem failure_reports_no_workouts_witness:
  "(case result (generateProgram sample_runtime sample_form False dropped_envs initial_hook) of
      Pending \<Rightarrow> False
    | Resolved r \<Rightarrow> \<not> success r \<and> workoutsCreated r = 0) \<and>
   streamingWorkouts
     (final (generateProgram sample_runtime sample_form False dropped_envs initial_hook)) =
     [w1_workout]"
  using failure_reports_no_workouts [OF dropped_run] dropped_run dropped_streamed
  by simp

text \<open>
  The deadline firing while the request of a pass is in flight (sent and not done, the
  call of the client pending, the timeout not cleared): the request is aborted, the client
  invokes \<open>onClose\<close> and not \<open>onError\<close>, its call returns, and the hook goes on behind
  its \<open>await\<close> on the path of a finished generation. The run ends with this pass and its
  promise resolves with \<open>success: true\<close>.
\<close>

lemma timeout_ends_run_as_success:
  assumes "access_token (envs k) = Some token"
    and "events (envs k) = pre @ TimeoutFires # post"
    and "st = run_events (gen_options rt) pre (attempt_start formData (before_attempt k h))"
    and "settled st = None" and "timeout_pending (user st)" and "\<not> signal_aborted st"
    and "xhr_readyState st \<in> {OPENED, HEADERS_RECEIVED, LOADING}"
    and "k \<le> MAX_RETRIES"
    and "r = retry_loop rt formData envs k le h es ds"
  shows "calls (attempt_step (gen_options rt) TimeoutFires st) = calls st @ [OnClose, OnClose] \<and>
         settled (attempt_step (gen_options rt) TimeoutFires st) = Some Returned \<and>
         result r = Resolved \<lparr>success = True,
                                workoutsCreated = length (processedWorkouts (user st)),
                                result_error = None\<rparr> \<and>
         ends r = es @ [Ended_success (length (processedWorkouts (user st)))] \<and>
         delays r = (if k > 0 then ds @ [RETRY_DELAY] else ds) \<and>
         stage (final r) = Complete"
proof -
  let ?st' = "attempt_step (gen_options rt) TimeoutFires st"
  note step = timeout_step [OF assms(4-7), of rt]
  have "run_events (gen_options rt) (events (envs k)) (attempt_start formData (before_attempt k h))
      = run_events (gen_options rt) (TimeoutFires # post) st"
    by (simp add: assms(2,3) run_events_append)
  also have "\<dots> = run_events (gen_options rt) post ?st'"
    using assms(4) by simp
  also have "\<dots> = ?st'"
    using step by (simp add: run_events_settled)
  finally have run: "run_events (gen_options rt) (events (envs k))
      (attempt_start formData (before_attempt k h)) = ?st'" .
  have att: "try_attempt rt formData (envs k) k h =
      Succeeded ((hook (user ?st'))\<lparr>stage := Complete, timer_running := False, isGenerating := False\<rparr>)
        (length (processedWorkouts (user ?st')))"
    using step by (simp add: try_attempt_def assms(1) run Let_def)
  show ?thesis
    using step by (simp add: assms(9) succeeded_ends_run [where envs = envs, OF assms(8) att])
qed

text \<open>
  C1 at a concrete run: the deadline fires in the first pass, after the headers of a 200
  response, with no retry made yet. The scheduled timeout aborts the request, the call of
  the client returns, and the promise of \<open>generateProgram\<close> resolves with
  \<open>success: true\<close> after this one pass, the stage being \<open>complete\<close>: the pass is neither
  classified as a failure nor retried.
\<close>

theorem timeout_resolves_as_success:
  "result (generateProgram sample_runtime sample_form False timeout_envs initial_hook) =
     Resolved \<lparr>success = True, workoutsCreated = 0, result_error = None\<rparr> \<and>
   attempts (generateProgram sample_runtime sample_form False timeout_envs initial_hook) = 1 \<and>
   stage (final (generateProgram sample_runtime sample_form False timeout_envs initial_hook)) =
     Complete"
  by code_simp

text \<open>
  C5 at a concrete run: \<open>cancel\<close> is invoked after the first workout has streamed in. The
  client invokes \<open>onClose\<close> twice, once from each handler of the aborted request, and
  nothing after that; the promise of \<open>generateProgram\<close> resolves with \<open>success: true\<close> and
  one workout, and the stage that \<open>cancel\<close> had set to \<open>idle\<close> ends as \<open>complete\<close>.
\<close>

theorem cancel_resolves_as_success:
  "calls (run_events (gen_options sample_runtime) (events (cancel_envs 0))
            (attempt_start sample_form initial_hook)) =
     [OnOpen, OnMessage w1_frame, OnClose, OnClose] \<and>
   result (generateProgram sample_runtime sample_form False cancel_envs initial_hook) =
     Resolved \<lparr>success = True, workoutsCreated = 1, result_error = None\<rparr> \<and>
   stage (final (generateProgram sample_runtime sample_form False cancel_envs initial_hook)) =
     Complete \<and>
   error (final (generateProgram sample_runtime sample_form False cancel_envs initial_hook)) =
     Some ''Generation cancelled''"
  by code_simp

text \<open>
  C6 at a concrete run: the server streams a workout and then an \<open>error\<close> payload with the
  message \<open>boom\<close>, and closes the response. \<open>onMessage\<close> throws the error, inside the
  handler of the request; the call of the client is not rejected by it, and when the
  request is done the promise of \<open>generateProgram\<close> resolves with \<open>success: true\<close>.
\<close>

theorem error_payload_resolves_as_success:
  "snd (gen_onMessage sample_runtime error_frame (fresh_attempt sample_form initial_hook)) =
     Some (new_Error ''boom'') \<and>
   result (generateProgram sample_runtime sample_form False error_payload_envs initial_hook) =
     Resolved \<lparr>success = True, workoutsCreated = 1, result_error = None\<rparr> \<and>
   ends (generateProgram sample_runtime sample_form False error_payload_envs initial_hook) =
     [Ended_success 1] \<and>
   stage (final (generateProgram sample_runtime sample_form False error_payload_envs initial_hook)) =
     Complete"
  by code_simp

end
